(* ===== verification/Hyperlink_Prelude.thy ===== *)
theory Hyperlink_Prelude
  imports Main "HOL-Library.Word" "HOL-Library.Multiset"
begin

text \<open>
  Shared vocabulary of the Hyperlink development: the machine integer types, C++
  exceptions as values, the sequencing of code that threads a state and may throw,
  the parts of \<^verbatim>\<open>std::string_view\<close>, \<^verbatim>\<open>std::to_string\<close>, \<^verbatim>\<open>std::from_chars\<close> and
  \<^verbatim>\<open>std::stoul\<close> that the sources use, and the generic lemmas the components share.
  A thrown exception is a left injection; the state at the throw is kept, because
  destructors, catch handlers and other threads observe it.
\<close>

section \<open>Machine integers\<close>

type_synonym byte = "8 word"
type_synonym u16 = "16 word"
type_synonym u32 = "32 word"
type_synonym u64 = "64 word"

section \<open>Exceptions as values\<close>

text \<open>
  One constructor per exception class the sources throw, with its message.
  \<open>Null_dereference\<close> is a call through an empty \<^verbatim>\<open>std::unique_ptr\<close>: undefined behaviour in
  C++, made visible here as an outcome of its own that no handler of the code may rely on.
\<close>

datatype exn =
    Invalid_argument string
  | Logic_error string
  | Runtime_error string
  | Out_of_range string
  | Filesystem_error string
  | PeerDiscoveryError string
  | Null_dereference

fun what :: "exn \<Rightarrow> string" where
  "what (Invalid_argument m) = m"
| "what (Logic_error m) = m"
| "what (Runtime_error m) = m"
| "what (Out_of_range m) = m"
| "what (Filesystem_error m) = m"
| "what (PeerDiscoveryError m) = m"
| "what Null_dereference = []"

type_synonym 'a result = "exn + 'a"

text \<open>A computation over a state: it returns or throws, and leaves a state either way.\<close>

type_synonym ('s, 'a) eff = "'s \<Rightarrow> 'a result \<times> 's"

definition returnE :: "'a \<Rightarrow> ('s, 'a) eff" where
  "returnE a s = (Inr a, s)"

definition throwE :: "exn \<Rightarrow> ('s, 'a) eff" where
  "throwE e s = (Inl e, s)"

definition bindE :: "('s, 'a) eff \<Rightarrow> ('a \<Rightarrow> ('s, 'b) eff) \<Rightarrow> ('s, 'b) eff" where
  "bindE m f s = (case m s of (Inl e, s') \<Rightarrow> (Inl e, s') | (Inr a, s') \<Rightarrow> f a s')"

definition liftE :: "'a result \<Rightarrow> ('s, 'a) eff" where
  "liftE r s = (r, s)"

definition catchE :: "('s, 'a) eff \<Rightarrow> (exn \<Rightarrow> ('s, 'a) eff) \<Rightarrow> ('s, 'a) eff" where
  "catchE m h s = (case m s of (Inl e, s') \<Rightarrow> h e s' | (Inr a, s') \<Rightarrow> (Inr a, s'))"

section \<open>Strings\<close>

fun index_of :: "char \<Rightarrow> string \<Rightarrow> nat option" where
  "index_of c [] = None"
| "index_of c (x # xs) = (if x = c then Some 0 else map_option Suc (index_of c xs))"

text \<open>\<^verbatim>\<open>string_view::find(c, pos)\<close>; \<open>None\<close> is \<^verbatim>\<open>npos\<close>.\<close>

definition find_char :: "char \<Rightarrow> string \<Rightarrow> nat \<Rightarrow> nat option" where
  "find_char c s pos = map_option (\<lambda>i. pos + i) (index_of c (drop pos s))"

text \<open>\<^verbatim>\<open>string_view::substr(pos, n)\<close> for \<open>pos \<le> size()\<close>, which every call site ensures.\<close>

definition substr :: "nat \<Rightarrow> nat \<Rightarrow> string \<Rightarrow> string" where
  "substr pos n s = take n (drop pos s)"

definition starts_with :: "string \<Rightarrow> string \<Rightarrow> bool" where
  "starts_with p s \<longleftrightarrow> take (length p) s = p"

definition isdigit :: "char \<Rightarrow> bool" where
  "isdigit c \<longleftrightarrow> 48 \<le> (of_char c :: nat) \<and> (of_char c :: nat) \<le> 57"

definition isspace :: "char \<Rightarrow> bool" where
  "isspace c \<longleftrightarrow> (of_char c :: nat) = 32 \<or> (9 \<le> (of_char c :: nat) \<and> (of_char c :: nat) \<le> 13)"

definition digit_char :: "nat \<Rightarrow> char" where
  "digit_char d = char_of (48 + d)"

definition digit_value :: "char \<Rightarrow> nat" where
  "digit_value c = of_char c - 48"

text \<open>\<^verbatim>\<open>std::to_string\<close> on an unsigned value.\<close>

fun dec_string :: "nat \<Rightarrow> string" where
  "dec_string n = (if n < 10 then [digit_char n] else dec_string (n div 10) @ [digit_char (n mod 10)])"

declare dec_string.simps [simp del]

definition dec_value :: "string \<Rightarrow> nat" where
  "dec_value s = foldl (\<lambda>n c. 10 * n + digit_value c) 0 s"

text \<open>
  \<^verbatim>\<open>std::from_chars\<close>, base 10, into an unsigned type of the width of the result: the
  longest run of digits is consumed; no digit is \<^verbatim>\<open>errc::invalid_argument\<close>, a value that
  does not fit is \<^verbatim>\<open>errc::result_out_of_range\<close> (both \<open>None\<close>). The second component is
  how many characters were consumed (the distance of \<^verbatim>\<open>end\<close>).
\<close>

definition from_chars :: "string \<Rightarrow> 'a::len word option \<times> nat" where
  "from_chars s =
     (let ds = takeWhile isdigit s in
      if ds = [] then (None, 0)
      else if 2 ^ LENGTH('a) \<le> dec_value ds then (None, length ds)
      else (Some (of_nat (dec_value ds)), length ds))"

text \<open>
  \<^verbatim>\<open>std::stoul\<close> and \<^verbatim>\<open>std::stoull\<close> on a platform with 64-bit \<^verbatim>\<open>unsigned long\<close>: leading
  white space and a sign are skipped, the digits that follow are read, anything after
  them is ignored, and a leading minus negates modulo $2^{64}$.
\<close>

definition stoul :: "string \<Rightarrow> u64 result" where
  "stoul s =
     (let body = dropWhile isspace s;
          neg = (case body of c # _ \<Rightarrow> c = CHR ''-'' | [] \<Rightarrow> False);
          sgn = (case body of c # _ \<Rightarrow> c = CHR ''-'' \<or> c = CHR ''+'' | [] \<Rightarrow> False);
          ds = takeWhile isdigit (if sgn then tl body else body)
      in if ds = [] then Inl (Invalid_argument ''stoul'')
         else if 2 ^ 64 \<le> dec_value ds then Inl (Out_of_range ''stoul'')
         else Inr (if neg then - of_nat (dec_value ds) else of_nat (dec_value ds)))"

definition byte_of_char :: "char \<Rightarrow> byte" where
  "byte_of_char c = of_nat (of_char c)"

definition char_of_byte :: "byte \<Rightarrow> char" where
  "char_of_byte b = char_of (unat b)"

section \<open>Sorting\<close>

text \<open>
  \<^verbatim>\<open>std::sort\<close> with a comparison: any sorted permutation is admissible where the
  comparison is a strict weak order; insertion sort is one. The lemmas below about sorted
  results hold for every admissible one.
\<close>

fun insert_by :: "('a \<Rightarrow> 'a \<Rightarrow> bool) \<Rightarrow> 'a \<Rightarrow> 'a list \<Rightarrow> 'a list" where
  "insert_by lt x [] = [x]"
| "insert_by lt x (y # ys) = (if lt y x then y # insert_by lt x ys else x # y # ys)"

definition sort_by :: "('a \<Rightarrow> 'a \<Rightarrow> bool) \<Rightarrow> 'a list \<Rightarrow> 'a list" where
  "sort_by lt xs = foldr (insert_by lt) xs []"

section \<open>Lemmas on words\<close>

lemma unat_of_nat_small [simp]: "n < 2 ^ LENGTH('a) \<Longrightarrow> unat (of_nat n :: 'a::len word) = n"
  by (simp add: unat_of_nat take_bit_nat_eq_self)

lemma unat_less_power: "unat (w :: 'a::len word) < 2 ^ LENGTH('a)"
  by (rule unsigned_less)

section \<open>Lemmas on sequencing\<close>

named_theorems eff_simps

lemma returnE_apply [simp, eff_simps]: "returnE a s = (Inr a, s)"
  by (simp add: returnE_def)

lemma throwE_apply [simp, eff_simps]: "throwE e s = (Inl e, s)"
  by (simp add: throwE_def)

lemma liftE_apply [simp, eff_simps]: "liftE r s = (r, s)"
  by (simp add: liftE_def)

lemma bindE_Inr_iff:
  "bindE m f s = (Inr b, s2) \<longleftrightarrow> (\<exists>a s1. m s = (Inr a, s1) \<and> f a s1 = (Inr b, s2))"
  by (auto simp: bindE_def split: prod.splits sum.splits)

lemma bindE_Inl_iff:
  "bindE m f s = (Inl e, s2) \<longleftrightarrow>
     m s = (Inl e, s2) \<or> (\<exists>a s1. m s = (Inr a, s1) \<and> f a s1 = (Inl e, s2))"
  by (auto simp: bindE_def split: prod.splits sum.splits)

lemma bindE_Inr [simp, eff_simps]: "m s = (Inr a, s1) \<Longrightarrow> bindE m f s = f a s1"
  by (simp add: bindE_def)

lemma bindE_Inl [simp, eff_simps]: "m s = (Inl e, s1) \<Longrightarrow> bindE m f s = (Inl e, s1)"
  by (simp add: bindE_def)

lemma bindE_assoc: "bindE (bindE m f) g = bindE m (\<lambda>a. bindE (f a) g)"
  by (rule ext) (auto simp: bindE_def split: prod.splits sum.splits)

lemma bindE_cong [fundef_cong]:
  assumes "m s = m' s'" and "\<And>a s1. m' s' = (Inr a, s1) \<Longrightarrow> f a s1 = f' a s1"
  shows "bindE m f s = bindE m' f' s'"
  using assms by (auto simp: bindE_def split: prod.splits sum.splits)

section \<open>Lemmas on strings\<close>

lemma index_of_append: "c \<notin> set xs \<Longrightarrow> index_of c (xs @ c # ys) = Some (length xs)"
  by (induction xs) auto

lemma index_of_None_iff: "index_of c xs = None \<longleftrightarrow> c \<notin> set xs"
  by (induction xs) auto

lemma index_of_SomeD:
  "index_of c xs = Some i \<Longrightarrow> i < length xs \<and> xs ! i = c \<and> c \<notin> set (take i xs)"
  by (induction xs arbitrary: i) (auto split: if_splits)

lemma index_of_split:
  assumes "index_of c xs = Some i"
  shows "xs = take i xs @ c # drop (Suc i) xs"
  using index_of_SomeD [OF assms] by (metis id_take_nth_drop)

lemma split_at_unique:
  fixes xs ys :: string
  assumes "c \<notin> set xs" and "c \<notin> set ys"
  shows "xs @ c # xs' = ys @ c # ys' \<longleftrightarrow> xs = ys \<and> xs' = ys'"
proof
  assume eq: "xs @ c # xs' = ys @ c # ys'"
  have "Some (length xs) = Some (length ys)"
    using index_of_append [OF assms(1), of xs'] index_of_append [OF assms(2), of ys'] eq by simp
  with eq show "xs = ys \<and> xs' = ys'" by simp
qed simp

lemma find_char_append: "c \<notin> set xs \<Longrightarrow> find_char c (pre @ xs @ c # ys) (length pre) = Some (length pre + length xs)"
  by (simp add: find_char_def index_of_append)

lemma find_char_SomeE:
  assumes "find_char c s pos = Some j"
  obtains x y where "drop pos s = x @ c # y" "c \<notin> set x" "j = pos + length x"
proof -
  from assms obtain i where i: "index_of c (drop pos s) = Some i" "j = pos + i"
    by (auto simp: find_char_def)
  show thesis
  proof
    show "drop pos s = take i (drop pos s) @ c # drop (Suc i) (drop pos s)"
      by (rule index_of_split [OF i(1)])
    show "c \<notin> set (take i (drop pos s))" "j = pos + length (take i (drop pos s))"
      using index_of_SomeD [OF i(1)] i(2) by auto
  qed
qed

lemma starts_with_iff: "starts_with p s \<longleftrightarrow> (\<exists>r. s = p @ r)"
  unfolding starts_with_def by (metis append_eq_conv_conj append_take_drop_id)

lemma of_char_digit_char: "d < 10 \<Longrightarrow> (of_char (digit_char d) :: nat) = 48 + d"
  by (simp add: digit_char_def)

lemma isdigit_digit_char [simp]: "d < 10 \<Longrightarrow> isdigit (digit_char d)"
  by (simp add: isdigit_def of_char_digit_char)

lemma digit_value_digit_char [simp]: "d < 10 \<Longrightarrow> digit_value (digit_char d) = d"
  by (simp add: digit_value_def of_char_digit_char)

lemma dec_string_ne [simp]: "dec_string n \<noteq> []"
  by (subst dec_string.simps) simp

lemma dec_string_digits: "\<forall>c \<in> set (dec_string n). isdigit c"
proof (induction n rule: dec_string.induct)
  case (1 n)
  then show ?case by (cases "n < 10") (subst dec_string.simps, simp)+
qed

lemma dec_value_snoc: "dec_value (s @ [c]) = 10 * dec_value s + digit_value c"
  by (simp add: dec_value_def)

lemma dec_value_dec_string [simp]: "dec_value (dec_string n) = n"
proof (induction n rule: dec_string.induct)
  case (1 n)
  show ?case
  proof (cases "n < 10")
    case True
    then show ?thesis by (subst dec_string.simps) (simp add: dec_value_def)
  next
    case False
    then have "dec_value (dec_string (n div 10)) = n div 10" by (rule "1.IH")
    with False show ?thesis by (subst dec_string.simps) (simp add: dec_value_snoc)
  qed
qed

lemma takeWhile_digits: "(\<forall>c \<in> set ds. isdigit c) \<Longrightarrow> takeWhile isdigit ds = ds"
  by (simp add: takeWhile_eq_all_conv)

lemma not_isdigit [simp]: "\<not> isdigit (CHR '' '')" "\<not> isdigit (CHR ''.'')" "\<not> isdigit (CHR ''-'')"
  "\<not> isdigit (CHR ''+'')"
  by (simp_all add: isdigit_def)

lemma isdigit_not_space: "isdigit c \<Longrightarrow> \<not> isspace c"
  by (simp add: isdigit_def isspace_def)

lemma space_notin_dec_string [simp]: "CHR '' '' \<notin> set (dec_string n)"
  using dec_string_digits [of n] not_isdigit(1) by blast

lemma dec_string_hd: "hd (dec_string n) \<in> set (dec_string n)"
  by simp

lemma stoul_dec_string: "n < 2 ^ 64 \<Longrightarrow> stoul (dec_string n) = Inr (of_nat n)"
proof -
  assume n: "n < 2 ^ 64"
  obtain c cs where c: "dec_string n = c # cs" by (cases "dec_string n") auto
  have d: "isdigit c" using dec_string_digits [of n] c by simp
  then have "\<not> isspace c" "c \<noteq> CHR ''-''" "c \<noteq> CHR ''+''"
    using isdigit_not_space not_isdigit by auto
  then show ?thesis
    using n takeWhile_digits [OF dec_string_digits [of n]] dec_value_dec_string [of n]
    by (simp add: stoul_def c Let_def)
qed

section \<open>Counting up to a size\<close>

text \<open>
  The transfer loops count bytes in 64 bits up to a given size, adding what a read or
  receive returned, which never exceeds what is left.
\<close>

lemma unat_sub_of_nat:
  fixes r :: "'a::len word"
  assumes "k \<le> unat r"
  shows "unat (r - of_nat k) = unat r - k"
proof -
  have k: "unat (of_nat k :: 'a word) = k"
    using order_le_less_trans [OF assms unat_less_power] by (rule unat_of_nat_small)
  then have "of_nat k \<le> r" using assms by (simp add: word_le_nat_alt)
  then show ?thesis using k by (simp add: unat_sub)
qed

lemma count_up:
  fixes so_far limit :: "'a::len word"
  assumes "so_far < limit" and "k \<le> unat (limit - so_far)"
  shows "unat (so_far + of_nat k) = unat so_far + k" and "unat (limit - so_far) = unat limit - unat so_far"
    and "unat so_far + k \<le> unat limit"
proof -
  show d: "unat (limit - so_far) = unat limit - unat so_far" using assms(1) by (simp add: unat_sub less_imp_le)
  have lt: "unat so_far < unat limit" using assms(1) by (simp add: word_less_nat_alt)
  then show le: "unat so_far + k \<le> unat limit" using assms(2) d by simp
  have "k < 2 ^ LENGTH('a)" using order_le_less_trans [OF le unat_less_power] by linarith
  then have "unat (of_nat k :: 'a word) = k" by (rule unat_of_nat_small)
  then show "unat (so_far + of_nat k) = unat so_far + k"
    using order_le_less_trans [OF le unat_less_power] by (subst unat_add_lem [THEN iffD1]) simp_all
qed

lemma count_down:
  fixes so_far limit :: "'a::len word"
  assumes "so_far < limit" and "0 < k" and "k \<le> unat (limit - so_far)"
  shows "unat (limit - (so_far + of_nat k)) < unat (limit - so_far)"
proof -
  have "limit - (so_far + of_nat k) = limit - so_far - of_nat k" by simp
  then have "unat (limit - (so_far + of_nat k)) = unat (limit - so_far) - k"
    using unat_sub_of_nat [OF assms(3)] by (simp only:)
  with assms(2,3) show ?thesis by linarith
qed

section \<open>Lemmas on sorting\<close>

lemma mset_insert_by [simp]: "mset (insert_by lt x xs) = add_mset x (mset xs)"
  by (induction xs) auto

lemma mset_sort_by [simp]: "mset (sort_by lt xs) = mset xs"
  by (induction xs) (simp_all add: sort_by_def)

lemma set_sort_by [simp]: "set (sort_by lt xs) = set xs"
  by (metis mset_sort_by set_mset_mset)

lemma sort_by_eq_Nil_iff [simp]: "sort_by lt xs = [] \<longleftrightarrow> xs = []"
  by (metis mset_sort_by mset_zero_iff)

text \<open>
  Where the comparison is that of a key in a linear order, the result is sorted by the
  key; every sorted permutation begins with an element of least key.
\<close>

lemma sorted_insert_by:
  fixes key :: "'a \<Rightarrow> 'k::linorder"
  assumes "\<forall>y \<in> set ys. lt y x \<longleftrightarrow> key y < key x" and "sorted (map key ys)"
  shows "sorted (map key (insert_by lt x ys))"
  using assms
proof (induction ys)
  case Nil
  then show ?case by simp
next
  case (Cons y ys)
  have "set (insert_by lt x ys) = insert x (set ys)"
    by (metis mset_insert_by set_mset_add_mset_insert set_mset_mset)
  with Cons show ?case by auto
qed

lemma sorted_sort_by:
  fixes key :: "'a \<Rightarrow> 'k::linorder"
  assumes "\<And>x y. x \<in> set xs \<Longrightarrow> y \<in> set xs \<Longrightarrow> lt x y \<longleftrightarrow> key x < key y"
  shows "sorted (map key (sort_by lt xs))"
  using assms
proof (induction xs)
  case Nil
  then show ?case by (simp add: sort_by_def)
next
  case (Cons x xs)
  have "sorted (map key (sort_by lt xs))" using Cons by simp
  moreover have "\<forall>y \<in> set (sort_by lt xs). lt y x \<longleftrightarrow> key y < key x" using Cons.prems by simp
  ultimately show ?case using sorted_insert_by by (simp add: sort_by_def)
qed

lemma sorted_hd_least:
  assumes "sorted (map key ys)" and "mset ys = mset xs" and "x \<in> set xs"
  shows "key (hd ys) \<le> key x"
proof -
  from assms(2,3) have "x \<in> set ys" by (metis mset_eq_setD)
  with assms(1) show ?thesis by (cases ys) auto
qed

section \<open>Lemmas on bytes and characters\<close>

lemma of_char_less [simp]: "(of_char c :: nat) < 256"
  using of_char_mod_256 [of c, where 'a = nat] by (metis mod_less_divisor zero_less_numeral)

lemma char_of_byte_of_char [simp]: "char_of_byte (byte_of_char c) = c"
  by (simp add: char_of_byte_def byte_of_char_def unat_of_nat take_bit_eq_mod)

lemma map_char_of_byte_of_char [simp]: "map char_of_byte (map byte_of_char s) = s"
  by (simp add: o_def)

lemma byte_of_char_of_byte [simp]: "byte_of_char (char_of_byte b) = b"
proof -
  have "unat b < 256" using unsigned_less [of b, where 'a = nat] by simp
  then show ?thesis by (simp add: byte_of_char_def char_of_byte_def)
qed

end
