(* ===== verification/Auto_Config.thy ===== *)
theory Auto_Config
  imports Hyperlink_Prelude
begin

text \<open>
  The automatic link configuration: \<^verbatim>\<open>include/hyperlink/auto_config.hpp\<close> and
  \<^verbatim>\<open>src/auto_config.cpp\<close>. Options are validated against fixed packet-size bounds and two
  sets of options are negotiated into one configuration. The lemmas characterise what
  is accepted, show that a negotiated configuration is conservative, and say exactly
  when the two ends of a link, each negotiating on its own, come to matching results.
\<close>

section \<open>Data\<close>

datatype LinkMode = Host | Device | Auto

datatype TransferProfile = LowLatency | Balanced | Throughput

record AutoConfigOptions =
  ac_mode :: LinkMode
  ac_profile :: TransferProfile
  ac_preferred_packet_bytes :: u32
  ac_discovery_timeout :: int
  ac_require_encryption :: bool

text \<open>\<^verbatim>\<open>AutoConfigOptions{}\<close>: the default member initialisers.\<close>

definition default_options :: AutoConfigOptions where
  "default_options = \<lparr>ac_mode = Auto, ac_profile = Balanced,
     ac_preferred_packet_bytes = 64 * 1024, ac_discovery_timeout = 1500,
     ac_require_encryption = True\<rparr>"

record NegotiatedConfig =
  nc_local_mode :: LinkMode
  nc_profile :: TransferProfile
  nc_packet_bytes :: u32
  nc_encryption_enabled :: bool
  nc_session_name :: string

section \<open>Operations\<close>

definition kMinPacketBytes :: u32 where
  "kMinPacketBytes = 1024"

definition kMaxPacketBytes :: u32 where
  "kMaxPacketBytes = 1024 * 1024"

fun profile_rank :: "TransferProfile \<Rightarrow> int" where
  "profile_rank LowLatency = 0"
| "profile_rank Balanced = 1"
| "profile_rank Throughput = 2"

definition profile_from_rank :: "int \<Rightarrow> TransferProfile" where
  "profile_from_rank rank =
     (if rank = 0 then LowLatency else if rank = 2 then Throughput else Balanced)"

definition validate :: "AutoConfigOptions \<Rightarrow> string option" where
  "validate options =
     (if ac_preferred_packet_bytes options < kMinPacketBytes
      then Some ''preferred_packet_bytes must be at least 1024 bytes''
      else if ac_preferred_packet_bytes options > kMaxPacketBytes
      then Some ''preferred_packet_bytes must be no larger than 1048576 bytes''
      else if ac_discovery_timeout options \<le> 0
      then Some ''discovery_timeout must be positive''
      else None)"

definition negotiate ::
  "AutoConfigOptions \<Rightarrow> AutoConfigOptions \<Rightarrow> string \<Rightarrow> NegotiatedConfig result" where
  "negotiate local peer session_name =
     (case validate local of
        Some error \<Rightarrow> Inl (Invalid_argument (''local auto config is invalid: '' @ error))
      | None \<Rightarrow>
     (case validate peer of
        Some error \<Rightarrow> Inl (Invalid_argument (''peer auto config is invalid: '' @ error))
      | None \<Rightarrow>
        (let packet_bytes = min (ac_preferred_packet_bytes local) (ac_preferred_packet_bytes peer);
             profile = profile_from_rank
               (min (profile_rank (ac_profile local)) (profile_rank (ac_profile peer)));
             mode = (if ac_mode local = Auto
                     then (if ac_mode peer = Host then Device else Host)
                     else ac_mode local)
         in Inr \<lparr>nc_local_mode = mode, nc_profile = profile, nc_packet_bytes = packet_bytes,
                 nc_encryption_enabled = ac_require_encryption local \<or> ac_require_encryption peer,
                 nc_session_name = session_name\<rparr>)))"

fun to_string_LinkMode :: "LinkMode \<Rightarrow> string" where
  "to_string_LinkMode Host = ''host''"
| "to_string_LinkMode Device = ''device''"
| "to_string_LinkMode Auto = ''auto''"

fun to_string_TransferProfile :: "TransferProfile \<Rightarrow> string" where
  "to_string_TransferProfile LowLatency = ''low-latency''"
| "to_string_TransferProfile Balanced = ''balanced''"
| "to_string_TransferProfile Throughput = ''throughput''"

section \<open>Profiles are ordered by rank\<close>

text \<open>
  The rank makes the profiles a linear order, from the most conservative to the most
  aggressive; the negotiated profile is then the library's minimum.
\<close>

instantiation TransferProfile :: linorder
begin

definition less_eq_TransferProfile :: "TransferProfile \<Rightarrow> TransferProfile \<Rightarrow> bool" where
  "less_eq_TransferProfile a b \<longleftrightarrow> profile_rank a \<le> profile_rank b"

definition less_TransferProfile :: "TransferProfile \<Rightarrow> TransferProfile \<Rightarrow> bool" where
  "less_TransferProfile a b \<longleftrightarrow> profile_rank a < profile_rank b"

instance
proof
  fix a b :: TransferProfile
  show "a \<le> b \<Longrightarrow> b \<le> a \<Longrightarrow> a = b"
    by (cases a; cases b) (simp_all add: less_eq_TransferProfile_def)
qed (auto simp: less_eq_TransferProfile_def less_TransferProfile_def)

end

lemma profile_from_rank_rank [simp]: "profile_from_rank (profile_rank p) = p"
  by (cases p) (simp_all add: profile_from_rank_def)

lemma profile_from_rank_min:
  "profile_from_rank (min (profile_rank p) (profile_rank q)) = min p q"
  by (simp add: min_def less_eq_TransferProfile_def)

section \<open>Validation and negotiation\<close>

definition valid_options :: "AutoConfigOptions \<Rightarrow> bool" where
  "valid_options options \<longleftrightarrow>
     1024 \<le> ac_preferred_packet_bytes options \<and> ac_preferred_packet_bytes options \<le> 1048576 \<and>
     0 < ac_discovery_timeout options"

lemma validate_None_iff [simp]: "validate options = None \<longleftrightarrow> valid_options options"
  by (auto simp: validate_def valid_options_def kMinPacketBytes_def kMaxPacketBytes_def not_less not_le)

lemma validate_valid [simp]: "valid_options options \<Longrightarrow> validate options = None"
  by simp

lemma valid_default_options [simp]: "valid_options default_options"
  by (simp add: valid_options_def default_options_def)

lemma negotiate_valid:
  assumes "valid_options l" and "valid_options p"
  shows "negotiate l p name =
     Inr \<lparr>nc_local_mode = (if ac_mode l = Auto then (if ac_mode p = Host then Device else Host)
                           else ac_mode l),
          nc_profile = min (ac_profile l) (ac_profile p),
          nc_packet_bytes = min (ac_preferred_packet_bytes l) (ac_preferred_packet_bytes p),
          nc_encryption_enabled = ac_require_encryption l \<or> ac_require_encryption p,
          nc_session_name = name\<rparr>"
  using assms by (simp add: negotiate_def profile_from_rank_min)

lemma negotiate_Inr_iff: "(\<exists>c. negotiate l p name = Inr c) \<longleftrightarrow> valid_options l \<and> valid_options p"
proof (cases "valid_options l \<and> valid_options p")
  case True
  then show ?thesis by (simp add: negotiate_valid)
next
  case False
  then have "validate l \<noteq> None \<or> validate p \<noteq> None" by simp
  with False show ?thesis by (auto simp: negotiate_def split: option.splits)
qed

text \<open>
  C16. Negotiation is conservative. It succeeds exactly on two valid option sets. A configuration
  it returns has the smaller of the two packet sizes, so it is within both preferences and
  the fixed bounds; the more conservative of the two profiles; encryption as soon as one
  side requires it; the session name it was given; and a settled local role: the one asked
  for, or, for \<open>Auto\<close>, \<open>Device\<close> against a \<open>Host\<close> and \<open>Host\<close> otherwise.
\<close>

theorem negotiate_conservative:
  "((\<exists>c. negotiate l p name = Inr c) \<longleftrightarrow> valid_options l \<and> valid_options p) \<and>
   (\<forall>c. negotiate l p name = Inr c \<longrightarrow>
      nc_packet_bytes c = min (ac_preferred_packet_bytes l) (ac_preferred_packet_bytes p) \<and>
      nc_packet_bytes c \<le> ac_preferred_packet_bytes l \<and>
      nc_packet_bytes c \<le> ac_preferred_packet_bytes p \<and>
      1024 \<le> nc_packet_bytes c \<and> nc_packet_bytes c \<le> 1048576 \<and>
      nc_profile c \<in> {ac_profile l, ac_profile p} \<and>
      nc_profile c \<le> ac_profile l \<and> nc_profile c \<le> ac_profile p \<and>
      (nc_encryption_enabled c \<longleftrightarrow> ac_require_encryption l \<or> ac_require_encryption p) \<and>
      nc_session_name c = name \<and>
      nc_local_mode c = (case ac_mode l of Auto \<Rightarrow> if ac_mode p = Host then Device else Host
                                         | m \<Rightarrow> m) \<and>
      nc_local_mode c \<noteq> Auto)"
proof (cases "valid_options l \<and> valid_options p")
  case True
  then show ?thesis
    by (cases "ac_mode l") (auto simp: negotiate_valid valid_options_def min_le_iff_disj min_def)
next
  case False
  then show ?thesis using negotiate_Inr_iff [of l p name] by auto
qed

theorem negotiate_conservative_witness:
  "\<exists>c. negotiate (default_options\<lparr>ac_profile := Throughput, ac_preferred_packet_bytes := 262144,
                     ac_require_encryption := False\<rparr>)
                 (default_options\<lparr>ac_mode := Host\<rparr>) ''bench'' = Inr c \<and>
       nc_local_mode c = Device \<and> nc_packet_bytes c = 65536 \<and> nc_profile c \<le> Balanced \<and>
       nc_encryption_enabled c \<and> nc_session_name c = ''bench''"
proof -
  let ?l = "default_options\<lparr>ac_profile := Throughput, ac_preferred_packet_bytes := 262144,
                           ac_require_encryption := False\<rparr>"
  let ?p = "default_options\<lparr>ac_mode := Host\<rparr>"
  have "valid_options ?l \<and> valid_options ?p" by (simp add: valid_options_def default_options_def)
  then obtain c where "negotiate ?l ?p ''bench'' = Inr c"
    using negotiate_conservative [of ?l ?p "''bench''"] by blast
  with negotiate_conservative [of ?l ?p "''bench''"] show ?thesis
    by (auto simp: default_options_def)
qed

text \<open>
  C17. Each end of a link negotiates on its own, with the roles of the two option sets exchanged.
  Both ends fail together or succeed together; when they succeed they agree on packet
  size, profile and encryption, and their roles complement each other exactly when the
  two requested modes differ. Two ends that both ask for \<open>Auto\<close> both become \<open>Host\<close>.
\<close>

theorem negotiate_two_ends:
  "(case (negotiate l p name, negotiate p l name) of
      (Inr a, Inr b) \<Rightarrow>
        nc_packet_bytes a = nc_packet_bytes b \<and> nc_profile a = nc_profile b \<and>
        nc_encryption_enabled a = nc_encryption_enabled b \<and>
        (nc_local_mode a \<noteq> nc_local_mode b \<longleftrightarrow> ac_mode l \<noteq> ac_mode p) \<and>
        (ac_mode l = Auto \<and> ac_mode p = Auto \<longrightarrow> nc_local_mode a = Host \<and> nc_local_mode b = Host)
    | (Inl _, Inl _) \<Rightarrow> \<not> (valid_options l \<and> valid_options p)
    | _ \<Rightarrow> False)"
proof (cases "valid_options l \<and> valid_options p")
  case True
  then show ?thesis
    by (cases "ac_mode l"; cases "ac_mode p") (simp_all add: negotiate_valid min.commute disj_commute)
next
  case False
  then have "\<nexists>a. negotiate l p name = Inr a" "\<nexists>a. negotiate p l name = Inr a"
    by (auto simp: negotiate_Inr_iff)
  with False show ?thesis by (auto split: sum.split)
qed

theorem negotiate_two_ends_witness:
  "case (negotiate default_options (default_options\<lparr>ac_mode := Device\<rparr>) [],
         negotiate (default_options\<lparr>ac_mode := Device\<rparr>) default_options []) of
     (Inr a, Inr b) \<Rightarrow> nc_local_mode a \<noteq> nc_local_mode b
   | _ \<Rightarrow> False"
  using negotiate_two_ends [of default_options "default_options\<lparr>ac_mode := Device\<rparr>" "[]"]
  by (simp add: negotiate_def validate_def default_options_def kMinPacketBytes_def
      kMaxPacketBytes_def profile_from_rank_def Let_def)

text \<open>
  The checks in the order the code makes them, the local side first, each with the message
  that its failure must produce.
\<close>

definition required_checks :: "string \<Rightarrow> AutoConfigOptions \<Rightarrow> (bool \<times> string) list" where
  "required_checks side options =
     [(1024 \<le> unat (ac_preferred_packet_bytes options),
       side @ '' auto config is invalid: preferred_packet_bytes must be at least 1024 bytes''),
      (unat (ac_preferred_packet_bytes options) \<le> 1048576,
       side @ '' auto config is invalid: preferred_packet_bytes must be no larger than 1048576 bytes''),
      (0 < ac_discovery_timeout options,
       side @ '' auto config is invalid: discovery_timeout must be positive'')]"

lemma packet_bounds_unat:
  "ac_preferred_packet_bytes options < kMinPacketBytes \<longleftrightarrow> \<not> 1024 \<le> unat (ac_preferred_packet_bytes options)"
  "kMaxPacketBytes < ac_preferred_packet_bytes options \<longleftrightarrow> \<not> unat (ac_preferred_packet_bytes options) \<le> 1048576"
  by (simp_all add: kMinPacketBytes_def kMaxPacketBytes_def word_less_nat_alt not_le)

text \<open>
  C22. Rejected options are reported with the first failing check. The code behaves as the list of
  six checks says: packet size at least 1024, at most 1048576, positive timeout, for the
  local side and then for the peer side. When all hold there is a configuration; otherwise
  the call throws \<open>invalid_argument\<close> with the message of the first check that fails.
\<close>

theorem negotiate_error_order:
  "case List.find (\<lambda>(holds, _). \<not> holds)
          (required_checks ''local'' l @ required_checks ''peer'' p) of
     None \<Rightarrow> \<exists>c. negotiate l p name = Inr c
   | Some (_, message) \<Rightarrow> negotiate l p name = Inl (Invalid_argument message)"
  by (simp add: required_checks_def negotiate_def validate_def packet_bounds_unat Let_def not_le not_less)

end
