(* ===== verification/Session_Layer.thy ===== *)
theory Session_Layer
  imports Auto_Config
begin

text \<open>
  The session layer: \<^verbatim>\<open>include/hyperlink/session.hpp\<close> and \<^verbatim>\<open>src/session.cpp\<close>. The abstract
  class \<^verbatim>\<open>Transport\<close> is a record of operations over a transport state; a \<^verbatim>\<open>Session\<close> owns at
  most one transport (\<^verbatim>\<open>std::unique_ptr\<close>) and a connection flag. The contract a transport
  implementation owes its session is a locale; two extensions add the laws of an ordered
  byte stream and of one that does not fail. The lemmas show that a session never lets
  a data or close call reach a transport that is not connected, for every sequence of
  calls, and that the defaulted move constructor breaks the guard of the moved-from object.
\<close>

section \<open>Data\<close>

datatype UsbSpeed =
    Unknown | LowSpeed | FullSpeed | HighSpeed | SuperSpeed | SuperSpeedPlus
  | Usb4_20Gbps | Usb4_40Gbps | Usb4_80Gbps

record PeerInfo =
  pi_id :: string
  pi_display_name :: string
  pi_vendor_id :: u16
  pi_product_id :: u16
  pi_usb_speed :: UsbSpeed
  pi_theoretical_bits_per_second :: u64
  pi_supports_high_speed :: bool
  pi_supports_super_speed :: bool

text \<open>
  \<^verbatim>\<open>class Transport\<close>. \<open>t_receive_into n\<close> is a call with a span of \<open>n\<close> bytes: the bytes
  it returns are those stored at the front of the span and their number is the returned
  \<^verbatim>\<open>std::size_t\<close>. \<open>t_close\<close> is \<^verbatim>\<open>noexcept\<close>.
\<close>

record 't transport_ops =
  t_discover :: "AutoConfigOptions \<Rightarrow> ('t, PeerInfo list) eff"
  t_connect :: "PeerInfo \<Rightarrow> NegotiatedConfig \<Rightarrow> ('t, unit) eff"
  t_send :: "byte list \<Rightarrow> ('t, nat) eff"
  t_receive :: "nat \<Rightarrow> ('t, byte list) eff"
  t_receive_into :: "nat \<Rightarrow> ('t, byte list) eff"
  t_close :: "'t \<Rightarrow> 't"

record 't session =
  s_transport :: "'t option"
  s_connected :: bool

section \<open>Operations\<close>

text \<open>A call through \<^verbatim>\<open>transport_->\<close>.\<close>

definition via_transport :: "('t, 'a) eff \<Rightarrow> ('t session, 'a) eff" where
  "via_transport f s =
     (case s_transport s of
        None \<Rightarrow> (Inl Null_dereference, s)
      | Some t \<Rightarrow> (case f t of (r, t') \<Rightarrow> (r, s\<lparr>s_transport := Some t'\<rparr>)))"

definition session_new :: "'t option \<Rightarrow> 't session result" where
  "session_new t =
     (case t of None \<Rightarrow> Inl (Invalid_argument ''Session requires a transport'')
      | Some _ \<Rightarrow> Inr \<lparr>s_transport = t, s_connected = False\<rparr>)"

definition session_close :: "'t transport_ops \<Rightarrow> 't session \<Rightarrow> 't session" where
  "session_close ops s =
     (case s_transport s of
        Some t \<Rightarrow> if s_connected s then \<lparr>s_transport = Some (t_close ops t), s_connected = False\<rparr> else s
      | None \<Rightarrow> s)"

text \<open>\<^verbatim>\<open>~Session\<close>: what is left of the owned transport, which is then destroyed.\<close>

definition session_destroy :: "'t transport_ops \<Rightarrow> 't session \<Rightarrow> 't option" where
  "session_destroy ops s = s_transport (session_close ops s)"

text \<open>The defaulted move constructor: the new object and the moved-from one.\<close>

definition session_move :: "'t session \<Rightarrow> 't session \<times> 't session" where
  "session_move other = (other, other\<lparr>s_transport := None\<rparr>)"

text \<open>
  Move assignment of two distinct objects: the new target, the moved-from source and the
  target's former transport, which the assignment to the \<^verbatim>\<open>unique_ptr\<close> destroys.
\<close>

definition session_move_assign ::
  "'t transport_ops \<Rightarrow> 't session \<Rightarrow> 't session \<Rightarrow> 't session \<times> 't session \<times> 't option" where
  "session_move_assign ops self other =
     (let closed = session_close ops self
      in (\<lparr>s_transport = s_transport other, s_connected = s_connected other\<rparr>,
          \<lparr>s_transport = None, s_connected = False\<rparr>,
          s_transport closed))"

definition session_discover ::
  "'t transport_ops \<Rightarrow> AutoConfigOptions \<Rightarrow> ('t session, PeerInfo list) eff" where
  "session_discover ops options s =
     (case validate options of
        Some error \<Rightarrow> (Inl (Invalid_argument error), s)
      | None \<Rightarrow> via_transport (t_discover ops options) s)"

definition session_connect ::
  "'t transport_ops \<Rightarrow> PeerInfo \<Rightarrow> AutoConfigOptions \<Rightarrow> AutoConfigOptions \<Rightarrow> string \<Rightarrow>
   ('t session, unit) eff" where
  "session_connect ops peer local_options peer_options session_name =
     bindE (liftE (negotiate local_options peer_options session_name)) (\<lambda>config.
     bindE (via_transport (t_connect ops peer config)) (\<lambda>_ s.
     (Inr (), s\<lparr>s_connected := True\<rparr>)))"

definition not_connected :: exn where
  "not_connected = Logic_error ''Session is not connected''"

definition session_send :: "'t transport_ops \<Rightarrow> byte list \<Rightarrow> ('t session, nat) eff" where
  "session_send ops payload s =
     (if \<not> s_connected s then (Inl not_connected, s) else via_transport (t_send ops payload) s)"

definition session_receive :: "'t transport_ops \<Rightarrow> nat \<Rightarrow> ('t session, byte list) eff" where
  "session_receive ops max_bytes s =
     (if \<not> s_connected s then (Inl not_connected, s) else via_transport (t_receive ops max_bytes) s)"

definition session_receive_into :: "'t transport_ops \<Rightarrow> nat \<Rightarrow> ('t session, byte list) eff" where
  "session_receive_into ops capacity s =
     (if \<not> s_connected s then (Inl not_connected, s) else via_transport (t_receive_into ops capacity) s)"

fun to_string_UsbSpeed :: "UsbSpeed \<Rightarrow> string" where
  "to_string_UsbSpeed Unknown = ''unknown''"
| "to_string_UsbSpeed LowSpeed = ''USB low-speed''"
| "to_string_UsbSpeed FullSpeed = ''USB full-speed''"
| "to_string_UsbSpeed HighSpeed = ''USB high-speed''"
| "to_string_UsbSpeed SuperSpeed = ''USB 5Gbps''"
| "to_string_UsbSpeed SuperSpeedPlus = ''USB 10Gbps/20Gbps''"
| "to_string_UsbSpeed Usb4_20Gbps = ''USB4 20Gbps''"
| "to_string_UsbSpeed Usb4_40Gbps = ''USB4 40Gbps''"
| "to_string_UsbSpeed Usb4_80Gbps = ''USB4/USB 80Gbps''"

section \<open>Client programs and the calls they cause\<close>

text \<open>One call of the public interface; a client program is a list of them.\<close>

datatype session_op =
    Op_discover AutoConfigOptions
  | Op_connect PeerInfo AutoConfigOptions AutoConfigOptions string
  | Op_send "byte list"
  | Op_receive nat
  | Op_receive_into nat
  | Op_close

text \<open>
  The client catches every exception and goes on, so only the state is kept; the first
  component tells whether the call dereferenced a null transport.
\<close>

fun outcome :: "'a result \<times> 's \<Rightarrow> bool \<times> 's" where
  "outcome (r, s) = (r = Inl Null_dereference, s)"

fun session_exec :: "'t transport_ops \<Rightarrow> session_op \<Rightarrow> 't session \<Rightarrow> bool \<times> 't session" where
  "session_exec ops (Op_discover options) s = outcome (session_discover ops options s)"
| "session_exec ops (Op_connect peer l p name) s = outcome (session_connect ops peer l p name s)"
| "session_exec ops (Op_send payload) s = outcome (session_send ops payload s)"
| "session_exec ops (Op_receive n) s = outcome (session_receive ops n s)"
| "session_exec ops (Op_receive_into n) s = outcome (session_receive_into ops n s)"
| "session_exec ops Op_close s = (False, session_close ops s)"

fun session_run :: "'t transport_ops \<Rightarrow> session_op list \<Rightarrow> 't session \<Rightarrow> bool \<times> 't session" where
  "session_run ops [] s = (False, s)"
| "session_run ops (x # xs) s =
     (case session_exec ops x s of (n, s') \<Rightarrow>
      case session_run ops xs s' of (n', s'') \<Rightarrow> (n \<or> n', s''))"

text \<open>
  Specification side: a transport that records the calls it receives (a connect with
  whether it returned), and the link protocol as an automaton over such a record; \<open>None\<close>
  is a protocol error.
\<close>

datatype call = Discover_call | Connect_call bool | Send_call | Receive_call | Close_call

definition logged :: "'t transport_ops \<Rightarrow> ('t \<times> call list) transport_ops" where
  "logged ops =
     \<lparr>t_discover = \<lambda>options (t, cs). (case t_discover ops options t of (r, t') \<Rightarrow>
         (r, (t', cs @ [Discover_call]))),
      t_connect = \<lambda>peer config (t, cs). (case t_connect ops peer config t of (r, t') \<Rightarrow>
         (r, (t', cs @ [Connect_call (r = Inr ())]))),
      t_send = \<lambda>payload (t, cs). (case t_send ops payload t of (r, t') \<Rightarrow> (r, (t', cs @ [Send_call]))),
      t_receive = \<lambda>n (t, cs). (case t_receive ops n t of (r, t') \<Rightarrow> (r, (t', cs @ [Receive_call]))),
      t_receive_into = \<lambda>n (t, cs). (case t_receive_into ops n t of (r, t') \<Rightarrow>
         (r, (t', cs @ [Receive_call]))),
      t_close = \<lambda>(t, cs). (t_close ops t, cs @ [Close_call])\<rparr>"

fun link_step :: "call \<Rightarrow> bool option \<Rightarrow> bool option" where
  "link_step c None = None"
| "link_step Discover_call (Some up) = Some up"
| "link_step (Connect_call ok) (Some up) = Some (up \<or> ok)"
| "link_step Send_call (Some up) = (if up then Some True else None)"
| "link_step Receive_call (Some up) = (if up then Some True else None)"
| "link_step Close_call (Some up) = (if up then Some False else None)"

definition link_run :: "call list \<Rightarrow> bool option" where
  "link_run cs = fold link_step cs (Some False)"

section \<open>The contract of a transport\<close>

lemma outcome_eq: "outcome q = (fst q = Inl Null_dereference, snd q)"
  by (cases q) simp

locale transport_contract =
  fixes ops :: "'t transport_ops"
    and invar :: "'t \<Rightarrow> bool"
  assumes discover_invar: "invar t \<Longrightarrow> invar (snd (t_discover ops options t))"
    and connect_invar: "invar t \<Longrightarrow> invar (snd (t_connect ops peer config t))"
    and send_invar: "invar t \<Longrightarrow> invar (snd (t_send ops payload t))"
    and receive_invar: "invar t \<Longrightarrow> invar (snd (t_receive ops n t))"
    and receive_into_invar: "invar t \<Longrightarrow> invar (snd (t_receive_into ops n t))"
    and close_invar: "invar t \<Longrightarrow> invar (t_close ops t)"
    and send_bound: "invar t \<Longrightarrow> t_send ops payload t = (Inr k, t') \<Longrightarrow> k \<le> length payload"
    and receive_bound: "invar t \<Longrightarrow> t_receive ops n t = (Inr bs, t') \<Longrightarrow> length bs \<le> n"
    and receive_into_bound:
      "invar t \<Longrightarrow> t_receive_into ops n t = (Inr bs, t') \<Longrightarrow> length bs \<le> n"
begin

definition session_invar :: "'t session \<Rightarrow> bool" where
  "session_invar s \<longleftrightarrow> (\<forall>t. s_transport s = Some t \<longrightarrow> invar t)"

lemma via_transport_invar:
  assumes "session_invar s" and "\<And>t. invar t \<Longrightarrow> invar (snd (f t))"
  shows "session_invar (snd (via_transport f s))"
  using assms by (auto simp: via_transport_def session_invar_def split: option.splits prod.splits)
    (metis snd_conv)

lemma session_exec_invar:
  assumes "session_invar s"
  shows "session_invar (snd (session_exec ops x s))"
proof -
  have con: "session_invar (snd (session_connect ops peer l p name s))" for peer l p name
  proof (cases "negotiate l p name")
    case (Inl e)
    with assms show ?thesis by (simp add: session_connect_def)
  next
    case (Inr c)
    obtain r s' where v: "via_transport (t_connect ops peer c) s = (r, s')" by fastforce
    have "session_invar s'"
      using via_transport_invar [OF assms, of "t_connect ops peer c"] connect_invar v by simp
    with v Inr show ?thesis
      by (cases r) (simp_all add: session_connect_def session_invar_def)
  qed
  have d: "session_invar (snd (session_discover ops options s))" for options
    using via_transport_invar [OF assms, of "t_discover ops options"] assms discover_invar
    by (simp add: session_discover_def split: option.split)
  have "session_invar (session_close ops s)"
    using assms close_invar by (auto simp: session_close_def session_invar_def split: option.split)
  with assms con d show ?thesis
    by (cases x) (simp_all add: outcome_eq session_send_def session_receive_def session_receive_into_def
        via_transport_invar send_invar receive_invar receive_into_invar)
qed

lemma session_run_invar: "session_invar s \<Longrightarrow> session_invar (snd (session_run ops xs s))"
proof (induction xs arbitrary: s)
  case Nil
  then show ?case by simp
next
  case (Cons x xs)
  from Cons.IH [OF session_exec_invar [OF Cons.prems, of x]] show ?case
    by (simp add: case_prod_unfold)
qed

lemma session_receive_into_bound:
  "session_invar s \<Longrightarrow> session_receive_into ops n s = (Inr bs, s') \<Longrightarrow> length bs \<le> n"
  by (auto simp: session_receive_into_def via_transport_def session_invar_def
      split: if_splits option.splits prod.splits dest: receive_into_bound)

end

text \<open>
  An ordered, lossless byte stream: \<open>sent\<close> is what the peer will read of this end,
  \<open>pending\<close> what this end has still to read. A receive that stores nothing in a
  non-empty span means that nothing is pending: the peer has closed.
\<close>

locale stream_transport = transport_contract ops invar
  for ops :: "'t transport_ops" and invar :: "'t \<Rightarrow> bool" +
  fixes sent :: "'t \<Rightarrow> byte list"
    and pending :: "'t \<Rightarrow> byte list"
  assumes send_stream: "invar t \<Longrightarrow> t_send ops payload t = (Inr k, t') \<Longrightarrow>
      k = length payload \<and> sent t' = sent t @ payload \<and> pending t' = pending t"
    and receive_stream: "invar t \<Longrightarrow> t_receive_into ops n t = (Inr bs, t') \<Longrightarrow>
      pending t = bs @ pending t' \<and> sent t' = sent t \<and> (bs = [] \<longrightarrow> n = 0 \<or> pending t = [])"

text \<open>A stream on which, in the good states, data calls return.\<close>

locale reliable_stream = stream_transport ops invar sent pending
  for ops :: "'t transport_ops" and invar sent pending +
  fixes good :: "'t \<Rightarrow> bool"
  assumes good_invar: "good t \<Longrightarrow> invar t"
    and send_good: "good t \<Longrightarrow> \<exists>k t'. t_send ops payload t = (Inr k, t') \<and> good t'"
    and receive_good: "good t \<Longrightarrow> \<exists>bs t'. t_receive_into ops n t = (Inr bs, t') \<and> good t'"

section \<open>Sessions\<close>

lemma via_transport_Some [simp]:
  "s_transport s = Some t \<Longrightarrow>
   via_transport f s = (fst (f t), s\<lparr>s_transport := Some (snd (f t))\<rparr>)"
  by (simp add: via_transport_def split: prod.split)

lemma via_transport_None [simp]: "s_transport s = None \<Longrightarrow> via_transport f s = (Inl Null_dereference, s)"
  by (simp add: via_transport_def)

lemmas session_op_defs = session_discover_def session_connect_def session_send_def
  session_receive_def session_receive_into_def session_close_def

lemma link_run_snoc: "link_run (cs @ [c]) = link_step c (link_run cs)"
  by (simp add: link_run_def)

text \<open>The relation between a session over a logged transport and the protocol automaton.\<close>

definition follows_protocol :: "('t \<times> call list) session \<Rightarrow> bool" where
  "follows_protocol s \<longleftrightarrow>
     (\<exists>t cs. s_transport s = Some (t, cs) \<and> link_run cs = Some (s_connected s))"

lemma follows_protocolE:
  assumes "follows_protocol s"
  obtains t cs where "s_transport s = Some (t, cs)" "link_run cs = Some (s_connected s)"
  using assms by (auto simp: follows_protocol_def)

text \<open>The base operations must not use the null-dereference outcome of their own.\<close>

definition no_null :: "'t transport_ops \<Rightarrow> bool" where
  "no_null ops \<longleftrightarrow>
     (\<forall>t. (\<forall>x. fst (t_discover ops x t) \<noteq> Inl Null_dereference) \<and>
          (\<forall>x y. fst (t_connect ops x y t) \<noteq> Inl Null_dereference) \<and>
          (\<forall>x. fst (t_send ops x t) \<noteq> Inl Null_dereference) \<and>
          (\<forall>x. fst (t_receive ops x t) \<noteq> Inl Null_dereference) \<and>
          (\<forall>x. fst (t_receive_into ops x t) \<noteq> Inl Null_dereference))"

lemma no_nullD:
  assumes "no_null ops"
  shows "t_discover ops x1 t \<noteq> (Inl Null_dereference, t')"
    and "t_connect ops x2 x3 t \<noteq> (Inl Null_dereference, t')"
    and "t_send ops x4 t \<noteq> (Inl Null_dereference, t')"
    and "t_receive ops x5 t \<noteq> (Inl Null_dereference, t')"
    and "t_receive_into ops x5 t \<noteq> (Inl Null_dereference, t')"
  using assms by (auto simp: no_null_def) (metis fst_conv)+

lemma negotiate_no_null [simp]: "negotiate l p n \<noteq> Inl Null_dereference"
  by (simp add: negotiate_def Let_def split: option.split)

lemma connect_follows:
  assumes "follows_protocol s" and "no_null ops"
  shows "follows_protocol (snd (session_connect (logged ops) peer l p name s)) \<and>
         fst (session_connect (logged ops) peer l p name s) \<noteq> Inl Null_dereference"
proof (cases "negotiate l p name")
  case (Inl e)
  with assms show ?thesis
    using negotiate_no_null [of l p name] by (auto simp: session_connect_def simp del: negotiate_no_null)
next
  case (Inr c)
  from assms(1) obtain t cs where s: "s_transport s = Some (t, cs)" "link_run cs = Some (s_connected s)"
    by (rule follows_protocolE)
  obtain r t' where r: "t_connect ops peer c t = (r, t')" by fastforce
  with no_nullD(2) [OF assms(2)] have "r \<noteq> Inl Null_dereference" by blast
  with s r Inr show ?thesis
    by (cases r) (simp_all add: session_connect_def bindE_def logged_def follows_protocol_def link_run_snoc)
qed

lemma session_exec_follows:
  assumes "follows_protocol s" and nn: "no_null ops"
  shows "follows_protocol (snd (session_exec (logged ops) x s)) \<and> \<not> fst (session_exec (logged ops) x s)"
proof -
  from assms(1) obtain t cs where s: "s_transport s = Some (t, cs)" "link_run cs = Some (s_connected s)"
    by (rule follows_protocolE)
  show ?thesis
  proof (cases x)
    case (Op_connect peer l p name)
    with connect_follows [OF assms] show ?thesis by (simp add: outcome_eq)
  qed (use s no_nullD [OF nn] in \<open>auto simp: outcome_eq session_op_defs logged_def follows_protocol_def
        link_run_snoc not_connected_def split: option.splits prod.splits\<close>)
qed

lemma session_run_follows:
  assumes "follows_protocol s" and "no_null ops"
  shows "follows_protocol (snd (session_run (logged ops) xs s)) \<and> \<not> fst (session_run (logged ops) xs s)"
  using assms(1)
proof (induction xs arbitrary: s)
  case Nil
  then show ?case by simp
next
  case (Cons x xs)
  note e = session_exec_follows [OF Cons.prems assms(2), of x]
  with Cons.IH [of "snd (session_exec (logged ops) x s)"] show ?case
    by (simp add: case_prod_unfold)
qed

text \<open>
  C10. For every transport implementation and every sequence of calls on a session made by the
  public constructor, with exceptions caught and ignored by the client, no call
  dereferences a null transport, and the calls that reach the transport obey the link
  protocol: data and close calls only while connected, at most one close per connection,
  and the session's flag is exactly the state of the link.
\<close>

theorem session_obeys_link_protocol:
  assumes "no_null ops" and "session_new (Some (t, [])) = Inr s"
    and "session_run (logged ops) program s = (null, s')"
  shows "\<not> null \<and> (\<exists>t' calls. s_transport s' = Some (t', calls) \<and> link_run calls = Some (s_connected s'))"
proof -
  from assms(2) have "follows_protocol s"
    by (simp add: session_new_def follows_protocol_def link_run_def) auto
  from session_run_follows [OF this assms(1), of program] assms(3) show ?thesis
    by (simp add: follows_protocol_def)
qed

text \<open>A transport that accepts everything, as the fake of the session tests does.\<close>

definition accepting_ops :: "unit transport_ops" where
  "accepting_ops =
     \<lparr>t_discover = \<lambda>_ t. (Inr [], t), t_connect = \<lambda>_ _ t. (Inr (), t),
      t_send = \<lambda>payload t. (Inr (length payload), t), t_receive = \<lambda>n t. (Inr (replicate n 42), t),
      t_receive_into = \<lambda>n t. (Inr (replicate n 42), t), t_close = \<lambda>t. t\<rparr>"

definition any_peer :: PeerInfo where
  "any_peer = \<lparr>pi_id = ''peer-1'', pi_display_name = ''Test Peer'', pi_vendor_id = 0,
     pi_product_id = 0, pi_usb_speed = Unknown, pi_theoretical_bits_per_second = 0,
     pi_supports_high_speed = True, pi_supports_super_speed = True\<rparr>"

theorem session_obeys_link_protocol_witness:
  "\<exists>s null s' calls.
     session_new (Some ((), [])) = Inr s \<and>
     session_run (logged accepting_ops)
       [Op_send [1], Op_connect any_peer default_options default_options ''x'', Op_send [2],
        Op_receive 3, Op_close, Op_close, Op_send [4]] s = (null, s') \<and>
     \<not> null \<and> s_transport s' = Some ((), calls) \<and>
     calls = [Connect_call True, Send_call, Receive_call, Close_call] \<and>
     link_run calls = Some (s_connected s')"
proof -
  let ?p = "[Op_send [1], Op_connect any_peer default_options default_options ''x'', Op_send [2],
        Op_receive 3, Op_close, Op_close, Op_send [4]]"
  let ?s = "\<lparr>s_transport = Some ((), []), s_connected = False\<rparr> :: (unit \<times> call list) session"
  let ?s' = "\<lparr>s_transport = Some ((), [Connect_call True, Send_call, Receive_call, Close_call]),
               s_connected = False\<rparr> :: (unit \<times> call list) session"
  have n: "session_new (Some ((), [])) = Inr ?s" by (simp add: session_new_def)
  have r: "session_run (logged accepting_ops) ?p ?s = (False, ?s')"
    by (simp add: session_op_defs logged_def accepting_ops_def negotiate_valid not_connected_def)
  have "no_null accepting_ops" by (simp add: no_null_def accepting_ops_def)
  from session_obeys_link_protocol [OF this n r] n r show ?thesis by auto
qed

text \<open>
  C19. Closing. The transport is closed exactly when the session is connected, a second close does
  nothing, afterwards every data call throws without touching the transport, and the
  destructor leaves a transport that was closed if it had been connected.
\<close>

theorem session_close_once:
  "session_close ops (session_close ops s) = session_close ops s \<and>
   (s_connected s \<and> s_transport s = Some t \<longrightarrow>
      session_close ops s = \<lparr>s_transport = Some (t_close ops t), s_connected = False\<rparr> \<and>
      session_destroy ops s = Some (t_close ops t) \<and>
      session_send ops payload (session_close ops s) = (Inl not_connected, session_close ops s) \<and>
      session_receive ops n (session_close ops s) = (Inl not_connected, session_close ops s) \<and>
      session_receive_into ops n (session_close ops s) = (Inl not_connected, session_close ops s)) \<and>
   (\<not> s_connected s \<longrightarrow> session_close ops s = s \<and> session_destroy ops s = s_transport s)"
  by (auto simp: session_op_defs session_destroy_def split: option.split)

theorem session_close_once_witness:
  "session_destroy accepting_ops \<lparr>s_transport = Some (), s_connected = True\<rparr> = Some ()"
  using session_close_once [of accepting_ops "\<lparr>s_transport = Some (), s_connected = True\<rparr>" "()" "[]" 0]
  by (simp add: accepting_ops_def)

text \<open>
  C18. Moving. A session taken over by the move constructor or by move assignment behaves as the
  source did. After move assignment the source is disconnected and rejects data calls;
  after move construction the source keeps its connection flag, so that a data call on a
  moved-from session that was connected passes the guard and dereferences the null
  transport instead of throwing \<^verbatim>\<open>std::logic_error\<close>.
\<close>

theorem session_moved_from:
  assumes "session_move s = (a, from)" and "session_move_assign ops old s = (b, from', destroyed)"
  shows "a = s \<and> b = s \<and> destroyed = session_destroy ops old \<and>
         session_send ops payload from' = (Inl not_connected, from') \<and>
         session_send ops payload from =
           (if s_connected s then (Inl Null_dereference, from) else (Inl not_connected, from)) \<and>
         session_close ops from = from \<and> session_close ops from' = from'"
  using assms
  by (auto simp: session_move_def session_move_assign_def session_op_defs session_destroy_def Let_def)

theorem session_moved_from_witness:
  "session_send accepting_ops [1] (snd (session_move \<lparr>s_transport = Some (), s_connected = True\<rparr>))
     = (Inl Null_dereference, \<lparr>s_transport = None, s_connected = True\<rparr>)"
proof -
  let ?s = "\<lparr>s_transport = Some (), s_connected = True\<rparr>"
  have m: "session_move ?s = (?s, \<lparr>s_transport = None, s_connected = True\<rparr>)"
    by (simp add: session_move_def)
  have a: "session_move_assign accepting_ops ?s ?s =
      (?s, \<lparr>s_transport = None, s_connected = False\<rparr>, Some ())"
    by (simp add: session_move_assign_def session_op_defs accepting_ops_def)
  from session_moved_from [OF m a, of "[1]"] m show ?thesis by simp
qed

end
