(* ===== verification/Peer_Discovery.thy ===== *)
theory Peer_Discovery
  imports Session_Layer Complex_Main "HOL-Library.List_Lexorder" "HOL-Library.Char_ord"
    "HOL-Library.Product_Lexorder" "HOL-Library.Multiset"
begin

text \<open>
  Candidate handling of peer discovery: the value types of
  \<^verbatim>\<open>include/hyperlink/peer_discovery.hpp\<close>, and of \<^verbatim>\<open>src/peer_discovery.cpp\<close> the parser of
  version-2 advertisements, de-duplication, ranking by probed throughput, the selection
  with its tie breaker, and the test harness of \<^verbatim>\<open>src/peer_discovery_internal.hpp\<close>. A probe is a
  parameter that may throw and has a state of its own. Rates (\<^verbatim>\<open>double\<close>) are real numbers:
  the code only compares them, and the probe never produces a NaN.
\<close>

section \<open>Data\<close>

record PeerEndpoint =
  pe_host :: string
  pe_transfer_port :: u16
  pe_probe_port :: u16
  pe_parallel_streams :: u32

record DiscoveredPeer =
  dp_endpoint :: PeerEndpoint
  dp_display_name :: string
  dp_source_address :: string
  dp_measured_bytes_per_second :: real

record PeerDiscoveryOptions =
  pd_discovery_port :: u16
  pd_discovery_timeout :: int
  pd_probe_timeout :: int
  pd_probe_payload_bytes :: u32

definition default_discovery_options :: PeerDiscoveryOptions where
  "default_discovery_options = \<lparr>pd_discovery_port = 47789, pd_discovery_timeout = 1500,
     pd_probe_timeout = 500, pd_probe_payload_bytes = 256 * 1024\<rparr>"

record TcpEndpoint =
  te_host :: string
  te_port :: u16
  te_send_buffer_bytes :: u32
  te_receive_buffer_bytes :: u32

definition default_endpoint :: TcpEndpoint where
  "default_endpoint = \<lparr>te_host = ''127.0.0.1'', te_port = 47777,
     te_send_buffer_bytes = 0, te_receive_buffer_bytes = 0\<rparr>"

text \<open>A received datagram with the address it came from.\<close>

type_synonym reply = "string \<times> string"

section \<open>Parsing\<close>

definition kMaximumAdvertisementBytes :: nat where
  "kMaximumAdvertisementBytes = 512"

definition kAdvertisementPrefix :: string where
  "kAdvertisementPrefix = ''HLINK_PEER_V2 ''"

definition kDiscoveryMessage :: string where
  "kDiscoveryMessage = ''HLINK_DISCOVER_V2''"

definition discovery_datagram_within_limit :: "nat \<Rightarrow> bool" where
  "discovery_datagram_within_limit received_bytes \<longleftrightarrow> received_bytes \<le> kMaximumAdvertisementBytes"

definition is_decimal :: "string \<Rightarrow> bool" where
  "is_decimal value \<longleftrightarrow> value \<noteq> [] \<and> list_all isdigit value"

definition parse_decimal :: "string \<Rightarrow> 'a::len word option" where
  "parse_decimal value =
     (if \<not> is_decimal value then None
      else case from_chars value of
             (None, _) \<Rightarrow> None
           | (Some parsed, consumed) \<Rightarrow> if consumed \<noteq> length value then None else Some parsed)"

text \<open>
  The loop of \<^verbatim>\<open>parse_ipv4\<close> with \<open>n\<close> octets still to read; \<open>n = 0\<close> in the recursive
  clause is the code's \<^verbatim>\<open>index + 1 == octets.size()\<close>.
\<close>

fun parse_ipv4_loop :: "string \<Rightarrow> nat \<Rightarrow> nat \<Rightarrow> u32 list \<Rightarrow> u32 list option" where
  "parse_ipv4_loop address 0 position octets =
     (if position = length address then Some octets else None)"
| "parse_ipv4_loop address (Suc n) position octets =
     (let separator = find_char (CHR ''.'') address position in
      if (n = 0) \<noteq> (separator = None) then None
      else
        let part = (case separator of None \<Rightarrow> drop position address
                    | Some i \<Rightarrow> substr position (i - position) address)
        in case parse_decimal part of
             None \<Rightarrow> None
           | Some parsed \<Rightarrow>
               if parsed > 255 then None
               else parse_ipv4_loop address n
                 (case separator of None \<Rightarrow> length address | Some i \<Rightarrow> i + 1) (octets @ [parsed]))"

definition parse_ipv4 :: "string \<Rightarrow> u32 list option" where
  "parse_ipv4 address = parse_ipv4_loop address 4 0 []"

definition parse_peer_advertisement :: "string \<Rightarrow> string \<Rightarrow> DiscoveredPeer option" where
  "parse_peer_advertisement message source_address =
     (if length message > kMaximumAdvertisementBytes \<or> \<not> starts_with kAdvertisementPrefix message \<or>
         parse_ipv4 source_address = None then None
      else
        let fields = drop (length kAdvertisementPrefix) message in
        case find_char (CHR '' '') fields 0 of None \<Rightarrow> None | Some transfer_end \<Rightarrow>
        case find_char (CHR '' '') fields (transfer_end + 1) of None \<Rightarrow> None | Some probe_end \<Rightarrow>
        case find_char (CHR '' '') fields (probe_end + 1) of None \<Rightarrow> None | Some streams_end \<Rightarrow>
        if streams_end + 1 = length fields then None
        else
          case (parse_decimal (substr 0 transfer_end fields) :: u32 option) of
            None \<Rightarrow> None | Some transfer_port \<Rightarrow>
          case (parse_decimal (substr (transfer_end + 1) (probe_end - transfer_end - 1) fields) :: u32 option) of
            None \<Rightarrow> None | Some probe_port \<Rightarrow>
          case (parse_decimal (substr (probe_end + 1) (streams_end - probe_end - 1) fields) :: u32 option) of
            None \<Rightarrow> None | Some parallel_streams \<Rightarrow>
          if transfer_port = 0 \<or> transfer_port > 65535 \<or> probe_port = 0 \<or> probe_port > 65535 \<or>
             parallel_streams = 0 then None
          else Some \<lparr>dp_endpoint = \<lparr>pe_host = source_address, pe_transfer_port = ucast transfer_port,
                       pe_probe_port = ucast probe_port, pe_parallel_streams = parallel_streams\<rparr>,
                     dp_display_name = drop (streams_end + 1) fields,
                     dp_source_address = source_address,
                     dp_measured_bytes_per_second = 0\<rparr>)"

section \<open>Selection\<close>

definition source_address_precedes :: "DiscoveredPeer \<Rightarrow> DiscoveredPeer \<Rightarrow> bool" where
  "source_address_precedes left right =
     (let left_address = parse_ipv4 (dp_source_address left);
          right_address = parse_ipv4 (dp_source_address right) in
      if left_address \<noteq> None \<and> right_address \<noteq> None \<and> left_address \<noteq> right_address
      then the left_address < the right_address
      else if dp_source_address left \<noteq> dp_source_address right
      then dp_source_address left < dp_source_address right
      else if pe_transfer_port (dp_endpoint left) \<noteq> pe_transfer_port (dp_endpoint right)
      then pe_transfer_port (dp_endpoint left) < pe_transfer_port (dp_endpoint right)
      else pe_probe_port (dp_endpoint left) < pe_probe_port (dp_endpoint right))"

definition faster :: "DiscoveredPeer \<Rightarrow> DiscoveredPeer \<Rightarrow> bool" where
  "faster left right =
     (if dp_measured_bytes_per_second left \<noteq> dp_measured_bytes_per_second right
      then dp_measured_bytes_per_second left > dp_measured_bytes_per_second right
      else source_address_precedes left right)"

definition select_fastest_peer :: "DiscoveredPeer list \<Rightarrow> DiscoveredPeer result" where
  "select_fastest_peer candidates =
     (if candidates = [] then Inl (Invalid_argument ''peer candidates must not be empty'')
      else Inr (hd (sort_by faster candidates)))"

section \<open>Candidates and ranking\<close>

definition candidate_key :: "DiscoveredPeer \<Rightarrow> string \<times> u16 \<times> u16" where
  "candidate_key peer = (pe_host (dp_endpoint peer), pe_transfer_port (dp_endpoint peer),
     pe_probe_port (dp_endpoint peer))"

text \<open>The loop of \<^verbatim>\<open>deduplicate_candidates\<close> over the remaining replies.\<close>

fun deduplicate_loop ::
  "reply list \<Rightarrow> (string \<times> u16 \<times> u16) set \<Rightarrow> DiscoveredPeer list \<Rightarrow> DiscoveredPeer list" where
  "deduplicate_loop [] keys candidates = candidates"
| "deduplicate_loop ((message, source) # replies) keys candidates =
     (case parse_peer_advertisement message source of
        None \<Rightarrow> deduplicate_loop replies keys candidates
      | Some peer \<Rightarrow>
          if candidate_key peer \<in> keys then deduplicate_loop replies keys candidates
          else deduplicate_loop replies (insert (candidate_key peer) keys) (candidates @ [peer]))"

definition deduplicate_candidates :: "reply list \<Rightarrow> DiscoveredPeer list" where
  "deduplicate_candidates replies = deduplicate_loop replies {} []"

text \<open>The probing loop: successes with their rate, and failure messages, in order.\<close>

fun probe_loop ::
  "(DiscoveredPeer \<Rightarrow> ('w, real) eff) \<Rightarrow> DiscoveredPeer list \<Rightarrow> DiscoveredPeer list \<Rightarrow> string list \<Rightarrow>
   'w \<Rightarrow> (DiscoveredPeer list \<times> string list) \<times> 'w" where
  "probe_loop probe [] successful failures w = ((successful, failures), w)"
| "probe_loop probe (candidate # candidates) successful failures w =
     (case probe candidate w of
        (Inr rate, w') \<Rightarrow> probe_loop probe candidates
          (successful @ [candidate\<lparr>dp_measured_bytes_per_second := rate\<rparr>]) failures w'
      | (Inl error, w') \<Rightarrow> probe_loop probe candidates successful
          (failures @ [pe_host (dp_endpoint candidate) @ '': '' @ what error]) w')"

definition no_peer :: exn where
  "no_peer = PeerDiscoveryError ''no Hyperlink peer discovered''"

definition all_failed :: "string list \<Rightarrow> exn" where
  "all_failed failures =
     PeerDiscoveryError (''all Hyperlink peer probes failed'' @ concat (map (\<lambda>f. ''; '' @ f) failures))"

definition rank_candidates ::
  "(DiscoveredPeer \<Rightarrow> ('w, real) eff) \<Rightarrow> reply list \<Rightarrow> ('w, DiscoveredPeer) eff" where
  "rank_candidates probe replies w =
     (let candidates = deduplicate_candidates replies in
      if candidates = [] then (Inl no_peer, w)
      else case probe_loop probe candidates [] [] w of
             ((successful, failures), w') \<Rightarrow>
               if successful = [] then (Inl (all_failed failures), w')
               else (select_fastest_peer successful, w'))"

definition discover_and_rank ::
  "(PeerDiscoveryOptions \<Rightarrow> ('w, reply list) eff) \<Rightarrow> (DiscoveredPeer \<Rightarrow> ('w, real) eff) \<Rightarrow>
   PeerDiscoveryOptions \<Rightarrow> ('w, DiscoveredPeer) eff" where
  "discover_and_rank replies probe options = bindE (replies options) (rank_candidates probe)"

definition discover_peers ::
  "(PeerDiscoveryOptions \<Rightarrow> ('w, reply list) eff) \<Rightarrow> PeerDiscoveryOptions \<Rightarrow>
   ('w, DiscoveredPeer list) eff" where
  "discover_peers replies options =
     bindE (replies options) (\<lambda>rs.
       let candidates = deduplicate_candidates rs
       in if candidates = [] then throwE no_peer else returnE candidates)"

definition selected_tcp_endpoint :: "TcpEndpoint \<Rightarrow> DiscoveredPeer \<Rightarrow> TcpEndpoint" where
  "selected_tcp_endpoint endpoint peer =
     endpoint\<lparr>te_host := pe_host (dp_endpoint peer), te_port := pe_transfer_port (dp_endpoint peer)\<rparr>"

section \<open>The test harness\<close>

datatype ProbeEndpointKey = ProbeEndpointKey (pk_host: string) (pk_probe_port: u16)

record PeerDiscoveryTestHarness =
  th_replies :: "reply list"
  th_probe_rates :: "ProbeEndpointKey \<rightharpoonup> real"
  th_probe_failures :: "ProbeEndpointKey \<rightharpoonup> string"
  th_probed_endpoints :: "ProbeEndpointKey list"

definition probe_key :: "DiscoveredPeer \<Rightarrow> ProbeEndpointKey" where
  "probe_key peer = ProbeEndpointKey (pe_host (dp_endpoint peer)) (pe_probe_port (dp_endpoint peer))"

definition harness_probe :: "DiscoveredPeer \<Rightarrow> (PeerDiscoveryTestHarness, real) eff" where
  "harness_probe peer h =
     (let key = probe_key peer;
          h' = h\<lparr>th_probed_endpoints := th_probed_endpoints h @ [key]\<rparr>
      in case th_probe_failures h' key of
           Some failure \<Rightarrow> (Inl (Runtime_error failure), h')
         | None \<Rightarrow> (case th_probe_rates h' key of
             Some rate \<Rightarrow> (Inr rate, h')
           | None \<Rightarrow> (Inl (Runtime_error ''no probe rate configured''), h')))"

definition harness_select_fastest :: "(PeerDiscoveryTestHarness, DiscoveredPeer) eff" where
  "harness_select_fastest =
     discover_and_rank (\<lambda>_ h. (Inr (th_replies h), h)) harness_probe default_discovery_options"

section \<open>Order of probe keys\<close>

text \<open>\<^verbatim>\<open>operator<=>\<close> is defaulted: member by member, host first.\<close>

instantiation ProbeEndpointKey :: linorder
begin

definition less_eq_ProbeEndpointKey :: "ProbeEndpointKey \<Rightarrow> ProbeEndpointKey \<Rightarrow> bool" where
  "less_eq_ProbeEndpointKey a b \<longleftrightarrow> (pk_host a, pk_probe_port a) \<le> (pk_host b, pk_probe_port b)"

definition less_ProbeEndpointKey :: "ProbeEndpointKey \<Rightarrow> ProbeEndpointKey \<Rightarrow> bool" where
  "less_ProbeEndpointKey a b \<longleftrightarrow> (pk_host a, pk_probe_port a) < (pk_host b, pk_probe_port b)"

instance
proof
  fix a b c :: ProbeEndpointKey
  show "(a < b) = (a \<le> b \<and> \<not> b \<le> a)"
    unfolding less_eq_ProbeEndpointKey_def less_ProbeEndpointKey_def by (rule less_le_not_le)
  show "a \<le> a" unfolding less_eq_ProbeEndpointKey_def by (rule order_refl)
  show "a \<le> b \<Longrightarrow> b \<le> c \<Longrightarrow> a \<le> c" unfolding less_eq_ProbeEndpointKey_def by (rule order_trans)
  show "a \<le> b \<Longrightarrow> b \<le> a \<Longrightarrow> a = b"
    unfolding less_eq_ProbeEndpointKey_def by (cases a; cases b) (metis ProbeEndpointKey.sel antisym prod.inject)
  show "a \<le> b \<or> b \<le> a" unfolding less_eq_ProbeEndpointKey_def by (rule linear)
qed

end

section \<open>Decimal fields\<close>

lemma parse_decimal_eq:
  "(parse_decimal s :: 'a::len word option) =
     (if is_decimal s \<and> dec_value s < 2 ^ LENGTH('a) then Some (of_nat (dec_value s)) else None)"
proof (cases "is_decimal s")
  case True
  then have "takeWhile isdigit s = s" and "s \<noteq> []"
    by (auto simp: is_decimal_def list_all_iff)
  with True show ?thesis
    by (simp add: parse_decimal_def from_chars_def Let_def del: takeWhile_eq_all_conv)
next
  case False
  then show ?thesis by (simp add: parse_decimal_def)
qed

lemma parse_decimal_Some_iff:
  "(parse_decimal s :: 'a::len word option) = Some v \<longleftrightarrow> is_decimal s \<and> dec_value s = unat v"
  by (auto simp: parse_decimal_eq unat_less_power)

lemma is_decimal_dec_string [simp]: "is_decimal (dec_string n)"
  using dec_string_digits [of n] by (simp add: is_decimal_def list_all_iff)

lemma is_decimal_notin: "is_decimal s \<Longrightarrow> \<not> isdigit c \<Longrightarrow> c \<notin> set s"
  by (auto simp: is_decimal_def list_all_iff)

section \<open>IPv4 addresses\<close>

definition is_octet :: "string \<Rightarrow> bool" where
  "is_octet s \<longleftrightarrow> is_decimal s \<and> dec_value s \<le> 255"

definition octet :: "string \<Rightarrow> u32" where
  "octet s = of_nat (dec_value s)"

fun join_dots :: "string list \<Rightarrow> string" where
  "join_dots [] = []"
| "join_dots [x] = x"
| "join_dots (x # xs) = x @ CHR ''.'' # join_dots xs"

lemma parse_octet:
  "(case (parse_decimal part :: u32 option) of None \<Rightarrow> None
    | Some parsed \<Rightarrow> if parsed > 255 then None else f parsed) =
   (if is_octet part then f (octet part) else None)"
proof -
  have "(of_nat n :: u32) > 255 \<longleftrightarrow> n > 255" if "n < 2 ^ 32" for n
    using that by (simp add: word_less_nat_alt)
  then show ?thesis by (auto simp: parse_decimal_eq is_octet_def octet_def)
qed

lemma join_dots_Cons: "xs \<noteq> [] \<Longrightarrow> join_dots (x # xs) = x @ CHR ''.'' # join_dots xs"
  by (cases xs) auto

lemma dot_in_join_dots: "length parts = Suc (Suc n) \<Longrightarrow> CHR ''.'' \<in> set (join_dots parts)"
  by (auto simp: length_Suc_conv join_dots_Cons)

lemma dot_notin_octet: "is_octet x \<Longrightarrow> CHR ''.'' \<notin> set x"
  using is_decimal_notin not_isdigit(2) by (auto simp: is_octet_def)

lemma parse_ipv4_loop_iff:
  assumes "pos \<le> length a"
  shows "parse_ipv4_loop a (Suc n) pos os = Some r \<longleftrightarrow>
     (\<exists>parts. length parts = Suc n \<and> drop pos a = join_dots parts \<and> list_all is_octet parts \<and>
              r = os @ map octet parts)"
  using assms
proof (induction n arbitrary: pos os)
  case 0
  show ?case
  proof (cases "index_of (CHR ''.'') (drop pos a)")
    case None
    then have "parse_ipv4_loop a (Suc 0) pos os =
        (if is_octet (drop pos a) then Some (os @ [octet (drop pos a)]) else None)"
      by (simp add: find_char_def Let_def parse_octet)
    then show ?thesis by (auto simp: length_Suc_conv)
  next
    case (Some i)
    then have "CHR ''.'' \<in> set (drop pos a)" using index_of_None_iff [of "CHR ''.''" "drop pos a"] by simp
    with Some dot_notin_octet show ?thesis
      by (auto simp: find_char_def Let_def length_Suc_conv)
  qed
next
  case (Suc n)
  show ?case
  proof (cases "index_of (CHR ''.'') (drop pos a)")
    case None
    then have "CHR ''.'' \<notin> set (drop pos a)" by (simp add: index_of_None_iff)
    then have "\<nexists>parts. length parts = Suc (Suc n) \<and> drop pos a = join_dots parts"
      using dot_in_join_dots by metis
    with None show ?thesis by (auto simp: find_char_def Let_def)
  next
    case (Some i)
    define part where "part = take i (drop pos a)"
    define rest where "rest = drop (pos + i + 1) a"
    have split: "drop pos a = part @ CHR ''.'' # rest"
      using index_of_split [OF Some] by (simp add: part_def rest_def add.commute)
    have i: "i < length (drop pos a)" and dot: "CHR ''.'' \<notin> set part"
      using index_of_SomeD [OF Some] by (auto simp: part_def)
    then have le: "pos + i + 1 \<le> length a" by simp
    have "parse_ipv4_loop a (Suc (Suc n)) pos os =
        (if is_octet part then parse_ipv4_loop a (Suc n) (pos + i + 1) (os @ [octet part]) else None)"
      using Some by (simp add: find_char_def Let_def parse_octet substr_def part_def
          parse_ipv4_loop.simps(2) [of a "Suc n" pos os] del: parse_ipv4_loop.simps(2))
    also have "\<dots> = Some r \<longleftrightarrow> is_octet part \<and> (\<exists>parts. length parts = Suc n \<and>
        rest = join_dots parts \<and> list_all is_octet parts \<and> r = (os @ [octet part]) @ map octet parts)"
      using Suc.IH [OF le, of "os @ [octet part]"] by (simp add: rest_def)
    also have "\<dots> \<longleftrightarrow> (\<exists>parts. length parts = Suc (Suc n) \<and> drop pos a = join_dots parts \<and>
        list_all is_octet parts \<and> r = os @ map octet parts)" (is "?L \<longleftrightarrow> ?R")
    proof
      assume ?L
      then obtain parts where "is_octet part" "length parts = Suc n" "rest = join_dots parts"
        "list_all is_octet parts" "r = (os @ [octet part]) @ map octet parts" by blast
      moreover from this have "join_dots (part # parts) = part @ CHR ''.'' # join_dots parts"
        by (cases parts) auto
      ultimately show ?R
        using split by (intro exI [of _ "part # parts"]) simp
    next
      assume ?R
      then obtain parts where parts: "length parts = Suc (Suc n)" "drop pos a = join_dots parts"
        "list_all is_octet parts" "r = os @ map octet parts" by blast
      from parts(1) obtain x xs where "parts = x # xs" by (cases parts) auto
      with parts have x: "length (x # xs) = Suc (Suc n)" "drop pos a = join_dots (x # xs)"
        "list_all is_octet (x # xs)" "r = os @ map octet (x # xs)" by simp_all
      then have "drop pos a = x @ CHR ''.'' # join_dots xs" by (cases xs) auto
      with split have "part @ CHR ''.'' # rest = x @ CHR ''.'' # join_dots xs" by simp
      with x(3) have "part = x \<and> rest = join_dots xs"
        by (subst (asm) split_at_unique [OF dot]) (auto dest: dot_notin_octet)
      with x show ?L by auto
    qed
    finally show ?thesis .
  qed
qed

lemma parse_ipv4_quad:
  "parse_ipv4 a = Some octets \<longleftrightarrow>
     (\<exists>parts. length parts = 4 \<and> a = join_dots parts \<and> list_all is_octet parts \<and>
              octets = map octet parts)"
  using parse_ipv4_loop_iff [of 0 a 3 "[]" octets] by (simp add: parse_ipv4_def numeral_eq_Suc)

text \<open>
  C15. The address parser accepts exactly the dotted quads: four non-empty decimal parts of value at
  most 255, separated by single dots, and returns their values in order.
\<close>

theorem parse_ipv4_iff:
  "parse_ipv4 a = Some octets \<longleftrightarrow>
     (\<exists>parts. length parts = 4 \<and> a = join_dots parts \<and> list_all is_octet parts \<and>
              octets = map octet parts)"
  by (rule parse_ipv4_quad)

section \<open>Advertisements\<close>

text \<open>
  The wire format of an advertisement, as the design document states it: the prefix,
  three decimal fields, and a non-empty display name that may itself contain spaces.
\<close>

definition advertises :: "string \<Rightarrow> string \<Rightarrow> DiscoveredPeer \<Rightarrow> bool" where
  "advertises message source peer \<longleftrightarrow>
     (\<exists>t q n. message = kAdvertisementPrefix @ t @ '' '' @ q @ '' '' @ n @ '' '' @ dp_display_name peer \<and>
        is_decimal t \<and> dec_value t = unat (pe_transfer_port (dp_endpoint peer)) \<and>
        is_decimal q \<and> dec_value q = unat (pe_probe_port (dp_endpoint peer)) \<and>
        is_decimal n \<and> dec_value n = unat (pe_parallel_streams (dp_endpoint peer))) \<and>
     length message \<le> 512 \<and> dp_display_name peer \<noteq> [] \<and>
     pe_transfer_port (dp_endpoint peer) \<noteq> 0 \<and> pe_probe_port (dp_endpoint peer) \<noteq> 0 \<and>
     pe_parallel_streams (dp_endpoint peer) \<noteq> 0 \<and>
     parse_ipv4 source \<noteq> None \<and> pe_host (dp_endpoint peer) = source \<and>
     dp_source_address peer = source \<and> dp_measured_bytes_per_second peer = 0"

definition port_field :: "string \<Rightarrow> bool" where
  "port_field s \<longleftrightarrow> is_decimal s \<and> 0 < dec_value s \<and> dec_value s \<le> 65535"

definition streams_field :: "string \<Rightarrow> bool" where
  "streams_field s \<longleftrightarrow> is_decimal s \<and> 0 < dec_value s \<and> dec_value s < 2 ^ 32"

definition advertised_peer :: "string \<Rightarrow> string \<Rightarrow> string \<Rightarrow> string \<Rightarrow> string \<Rightarrow> DiscoveredPeer" where
  "advertised_peer source t q n name =
     \<lparr>dp_endpoint = \<lparr>pe_host = source, pe_transfer_port = of_nat (dec_value t),
        pe_probe_port = of_nat (dec_value q), pe_parallel_streams = of_nat (dec_value n)\<rparr>,
      dp_display_name = name, dp_source_address = source, dp_measured_bytes_per_second = 0\<rparr>"

lemma word32_field:
  assumes "n < 2 ^ 32"
  shows "(of_nat n :: u32) = 0 \<longleftrightarrow> n = 0" and "(of_nat n :: u32) > 65535 \<longleftrightarrow> n > 65535"
    and "(ucast (of_nat n :: u32) :: u16) = of_nat n"
proof -
  have u: "unat (of_nat n :: u32) = n" using assms by simp
  show "(of_nat n :: u32) = 0 \<longleftrightarrow> n = 0" by (subst unat_eq_0 [symmetric]) (simp only: u)
  from u show "(of_nat n :: u32) > 65535 \<longleftrightarrow> n > 65535" by (simp add: word_less_nat_alt)
  show "(ucast (of_nat n :: u32) :: u16) = of_nat n"
    using assms by (simp add: unsigned_of_nat take_bit_nat_eq_self)
qed

lemma parse_advertisement_fields:
  assumes fields: "message = kAdvertisementPrefix @ t @ CHR '' '' # q @ CHR '' '' # n @ CHR '' '' # name"
    and sp: "CHR '' '' \<notin> set t" "CHR '' '' \<notin> set q" "CHR '' '' \<notin> set n"
  shows "parse_peer_advertisement message source =
     (if length message \<le> 512 \<and> parse_ipv4 source \<noteq> None \<and> name \<noteq> [] \<and>
         port_field t \<and> port_field q \<and> streams_field n
      then Some (advertised_peer source t q n name) else None)"
proof -
  let ?f = "t @ CHR '' '' # q @ CHR '' '' # n @ CHR '' '' # name"
  have f1: "find_char (CHR '' '') ?f 0 = Some (length t)"
    using find_char_append [OF sp(1), of "[]"] by simp
  have f2: "find_char (CHR '' '') ?f (Suc (length t)) = Some (Suc (length t + length q))"
    using find_char_append [OF sp(2), of "t @ '' ''"] by simp
  have f3: "find_char (CHR '' '') ?f (Suc (Suc (length t + length q))) =
      Some (Suc (Suc (length t + length q + length n)))"
    using find_char_append [OF sp(3), of "t @ '' '' @ q @ '' ''"] by simp
  have sw: "starts_with kAdvertisementPrefix message" using fields by (auto simp: starts_with_iff)
  have dr: "drop (length kAdvertisementPrefix) message = ?f" using fields by simp
  have nm: "drop (3 + (length q + length n)) (CHR '' '' # q @ CHR '' '' # n @ CHR '' '' # name) = name"
    by (simp add: numeral_eq_Suc)
  show ?thesis
    unfolding parse_peer_advertisement_def dr
    by (auto simp: nm Let_def sw f1 f2 f3 substr_def kMaximumAdvertisementBytes_def parse_decimal_eq
        port_field_def streams_field_def advertised_peer_def word32_field)
qed

lemma parse_advertisement_SomeE:
  assumes "parse_peer_advertisement message source = Some peer"
  obtains t q n name where
    "message = kAdvertisementPrefix @ t @ CHR '' '' # q @ CHR '' '' # n @ CHR '' '' # name"
    "CHR '' '' \<notin> set t" "CHR '' '' \<notin> set q" "CHR '' '' \<notin> set n"
proof -
  from assms have "starts_with kAdvertisementPrefix message"
    by (auto simp: parse_peer_advertisement_def split: if_splits)
  then obtain f where f: "message = kAdvertisementPrefix @ f" by (auto simp: starts_with_iff)
  with assms obtain i j k where i: "find_char (CHR '' '') f 0 = Some i"
    and j: "find_char (CHR '' '') f (i + 1) = Some j" and k: "find_char (CHR '' '') f (j + 1) = Some k"
    by (auto simp: parse_peer_advertisement_def Let_def split: if_splits option.splits)
  from i obtain t f1 where 1: "f = t @ CHR '' '' # f1" "CHR '' '' \<notin> set t" "i = length t"
    by (auto elim: find_char_SomeE)
  from j obtain q f2 where 2: "f1 = q @ CHR '' '' # f2" "CHR '' '' \<notin> set q" "j = i + 1 + length q"
    by (rule find_char_SomeE) (auto simp: 1)
  from k obtain n f3 where 3: "f2 = n @ CHR '' '' # f3" "CHR '' '' \<notin> set n"
    by (rule find_char_SomeE) (auto simp: 1 2)
  show thesis by (rule that [of t q n f3]) (use f 1 2 3 in simp_all)
qed

lemma advertised_peer_fields [simp]:
  "pe_host (dp_endpoint (advertised_peer source t q n name)) = source"
  "dp_display_name (advertised_peer source t q n name) = name"
  "dp_source_address (advertised_peer source t q n name) = source"
  "dp_measured_bytes_per_second (advertised_peer source t q n name) = 0"
  "pe_transfer_port (dp_endpoint (advertised_peer source t q n name)) = of_nat (dec_value t)"
  "pe_probe_port (dp_endpoint (advertised_peer source t q n name)) = of_nat (dec_value q)"
  "pe_parallel_streams (dp_endpoint (advertised_peer source t q n name)) = of_nat (dec_value n)"
  by (simp_all add: advertised_peer_def)

lemma port_field_word:
  "port_field s \<Longrightarrow> unat (of_nat (dec_value s) :: u16) = dec_value s \<and> (of_nat (dec_value s) :: u16) \<noteq> 0"
  by (auto simp: port_field_def unat_eq_0 [symmetric])

lemma streams_field_word:
  "streams_field s \<Longrightarrow> unat (of_nat (dec_value s) :: u32) = dec_value s \<and> (of_nat (dec_value s) :: u32) \<noteq> 0"
  by (auto simp: streams_field_def unat_eq_0 [symmetric])

lemma unat_u16_le: "unat (w :: u16) \<le> 65535"
  using unat_less_power [of w] by simp

lemma parse_advertisement_advertises:
  assumes "parse_peer_advertisement message source = Some peer"
  shows "advertises message source peer"
proof -
  obtain t q n name where m:
    "message = kAdvertisementPrefix @ t @ CHR '' '' # q @ CHR '' '' # n @ CHR '' '' # name"
    "CHR '' '' \<notin> set t" "CHR '' '' \<notin> set q" "CHR '' '' \<notin> set n"
    using assms by (rule parse_advertisement_SomeE)
  have p: "peer = advertised_peer source t q n name"
    and ok: "length message \<le> 512" "parse_ipv4 source \<noteq> None" "name \<noteq> []"
      "port_field t" "port_field q" "streams_field n"
    using assms unfolding parse_advertisement_fields [OF m] by (auto split: if_splits)
  have "\<exists>t' q' n'. message = kAdvertisementPrefix @ t' @ '' '' @ q' @ '' '' @ n' @ '' '' @ name \<and>
        is_decimal t' \<and> dec_value t' = dec_value t \<and> is_decimal q' \<and> dec_value q' = dec_value q \<and>
        is_decimal n' \<and> dec_value n' = dec_value n"
    by (rule exI [of _ t], rule exI [of _ q], rule exI [of _ n])
      (use m ok in \<open>simp add: port_field_def streams_field_def\<close>)
  with ok show ?thesis
    using port_field_word [OF ok(4)] port_field_word [OF ok(5)] streams_field_word [OF ok(6)]
    by (simp add: advertises_def p)
qed

lemma advertises_parse:
  assumes "advertises message source peer"
  shows "parse_peer_advertisement message source = Some peer"
proof -
  let ?e = "dp_endpoint peer"
  from assms obtain t q n where m:
    "message = kAdvertisementPrefix @ t @ CHR '' '' # q @ CHR '' '' # n @ CHR '' '' # dp_display_name peer"
    and d: "is_decimal t" "is_decimal q" "is_decimal n"
    and v: "dec_value t = unat (pe_transfer_port ?e)" "dec_value q = unat (pe_probe_port ?e)"
      "dec_value n = unat (pe_parallel_streams ?e)"
    by (auto simp: advertises_def)
  have sp: "CHR '' '' \<notin> set t" "CHR '' '' \<notin> set q" "CHR '' '' \<notin> set n"
    using d is_decimal_notin not_isdigit(1) by auto
  have f: "port_field t" "port_field q" "streams_field n"
    using assms d v unat_u16_le unat_less_power [of "pe_parallel_streams ?e"]
    by (auto simp: advertises_def port_field_def streams_field_def unat_gt_0)
  have "advertised_peer source t q n (dp_display_name peer) = peer"
    using assms v by (simp add: advertises_def advertised_peer_def)
  with assms f show ?thesis
    unfolding parse_advertisement_fields [OF m sp] by (simp add: advertises_def)
qed

text \<open>
  C11. The advertisement parser implements the documented wire format exactly: it accepts a datagram
  from a source address if and only if the datagram is well formed (at most 512 bytes,
  ports in 1..65535, a positive 32-bit stream count, a non-empty name) and the source is
  an IPv4 address, and the peer it returns carries those values with the datagram's
  source as its host, never an address of the payload.
\<close>

theorem parse_peer_advertisement_iff:
  "parse_peer_advertisement message source = Some peer \<longleftrightarrow> advertises message source peer"
  using parse_advertisement_advertises advertises_parse by blast

section \<open>Selection of the fastest peer\<close>

definition locatable :: "DiscoveredPeer \<Rightarrow> bool" where
  "locatable p \<longleftrightarrow> parse_ipv4 (dp_source_address p) \<noteq> None"

definition tie_key :: "DiscoveredPeer \<Rightarrow> string \<times> u16 \<times> u16" where
  "tie_key p = (dp_source_address p, pe_transfer_port (dp_endpoint p), pe_probe_port (dp_endpoint p))"

definition fast_key :: "DiscoveredPeer \<Rightarrow> real \<times> u32 list \<times> string \<times> u16 \<times> u16" where
  "fast_key p = (- dp_measured_bytes_per_second p, the (parse_ipv4 (dp_source_address p)), tie_key p)"

lemma faster_key:
  assumes "locatable l" and "locatable r"
  shows "faster l r \<longleftrightarrow> fast_key l < fast_key r"
proof -
  from assms obtain a b where p: "parse_ipv4 (dp_source_address l) = Some a"
    "parse_ipv4 (dp_source_address r) = Some b" by (auto simp: locatable_def)
  have "source_address_precedes l r \<longleftrightarrow> (a, tie_key l) < (b, tie_key r)"
    by (auto simp: source_address_precedes_def p tie_key_def Let_def)
  then show ?thesis by (auto simp: faster_def fast_key_def p)
qed

lemma fast_key_inj:
  assumes "distinct (map tie_key cs)" and "c \<in> set cs" and "d \<in> set cs" and "fast_key c = fast_key d"
  shows "c = d"
  using assms by (auto simp: fast_key_def distinct_map inj_on_def)

lemma select_fastest_winner:
  assumes ne: "cs \<noteq> []" and loc: "\<forall>c \<in> set cs. locatable c" and dist: "distinct (map tie_key cs)"
    and perm: "mset ys = mset cs" and srt: "sorted_wrt (\<lambda>a b. \<not> faster b a) ys"
  shows "select_fastest_peer cs = Inr (hd ys) \<and> hd ys \<in> set cs \<and>
         (\<forall>c \<in> set cs. c \<noteq> hd ys \<longrightarrow> faster (hd ys) c)"
proof -
  have set: "set ys = set cs" by (rule mset_eq_setD [OF perm])
  have fk: "faster a b \<longleftrightarrow> fast_key a < fast_key b" if "a \<in> set cs" "b \<in> set cs" for a b
    using that loc by (intro faster_key) auto
  have "sorted_wrt (\<lambda>a b. fast_key a \<le> fast_key b) ys"
    using srt by (rule sorted_wrt_mono_rel [rotated]) (use fk set in \<open>auto simp: not_less\<close>)
  then have ys: "sorted (map fast_key ys)" by (simp add: sorted_map)
  have zs: "sorted (map fast_key (sort_by faster cs))" by (rule sorted_sort_by) (rule fk)
  have yne: "ys \<noteq> []" using perm ne by auto
  then have hy: "hd ys \<in> set cs" using set hd_in_set by metis
  have hz: "hd (sort_by faster cs) \<in> set cs"
    using ne hd_in_set [of "sort_by faster cs"] by simp
  have "fast_key (hd ys) \<le> fast_key (hd (sort_by faster cs))"
    by (rule sorted_hd_least [OF ys perm hz])
  moreover have "fast_key (hd (sort_by faster cs)) \<le> fast_key (hd ys)"
    by (rule sorted_hd_least [OF zs _ hy]) simp
  ultimately have "fast_key (hd ys) = fast_key (hd (sort_by faster cs))" by (rule order_antisym)
  then have "hd ys = hd (sort_by faster cs)" using fast_key_inj [OF dist hy hz] by simp
  moreover have "faster (hd ys) c" if "c \<in> set cs" "c \<noteq> hd ys" for c
  proof -
    have "fast_key (hd ys) \<le> fast_key c" by (rule sorted_hd_least [OF ys perm that(1)])
    moreover have "fast_key (hd ys) \<noteq> fast_key c"
      using fast_key_inj [OF dist hy that(1)] that(2) by auto
    ultimately show ?thesis using fk [OF hy that(1)] by (simp add: order_less_le)
  qed
  ultimately show ?thesis using ne hy by (simp add: select_fastest_peer_def)
qed

text \<open>
  C13. On candidates with IPv4 sources and pairwise distinct (source, transfer port, probe port), the
  selection is deterministic: whatever order the candidates come in and whatever sorted
  permutation \<^verbatim>\<open>std::sort\<close> produces, the winner is the same candidate, and it beats every
  other one by rate, then by numeric address, address text, transfer port and probe port.
\<close>

theorem select_fastest_deterministic:
  assumes "cs \<noteq> []" and "\<forall>c \<in> set cs. locatable c" and "distinct (map tie_key cs)"
    and "mset ys = mset cs" and "sorted_wrt (\<lambda>a b. \<not> faster b a) ys" and "mset cs' = mset cs"
  shows "select_fastest_peer cs = Inr (hd ys) \<and> select_fastest_peer cs' = Inr (hd ys) \<and>
         hd ys \<in> set cs \<and> (\<forall>c \<in> set cs. c \<noteq> hd ys \<longrightarrow> faster (hd ys) c)"
proof -
  have "cs' \<noteq> []" "\<forall>c \<in> set cs'. locatable c" "distinct (map tie_key cs')"
    using assms mset_eq_setD [OF assms(6)] mset_eq_imp_distinct_iff [of "map tie_key cs'" "map tie_key cs"]
    by (auto simp: mset_map)
  with assms select_fastest_winner [of cs ys] select_fastest_winner [of cs' ys] show ?thesis by simp
qed

definition peer_at :: "string \<Rightarrow> u16 \<Rightarrow> u16 \<Rightarrow> real \<Rightarrow> DiscoveredPeer" where
  "peer_at host transfer probe rate =
     \<lparr>dp_endpoint = \<lparr>pe_host = host, pe_transfer_port = transfer, pe_probe_port = probe,
        pe_parallel_streams = 1\<rparr>, dp_display_name = ''peer'', dp_source_address = host,
      dp_measured_bytes_per_second = rate\<rparr>"

lemmas octet_eval = is_octet_def is_decimal_def isdigit_def octet_def dec_value_def digit_value_def

lemma parse_ipv4_parts:
  "list_all is_octet [a, b, c, d] \<Longrightarrow>
   parse_ipv4 (a @ CHR ''.'' # b @ CHR ''.'' # c @ CHR ''.'' # d) = Some [octet a, octet b, octet c, octet d]"
  unfolding parse_ipv4_quad by (rule exI [of _ "[a, b, c, d]"]) simp

lemma parse_ipv4_examples:
  "parse_ipv4 ''192.168.1.9'' = Some [192, 168, 1, 9]" "parse_ipv4 ''192.168.1.4'' = Some [192, 168, 1, 4]"
  "parse_ipv4 ''10.0.0.1'' = Some [10, 0, 0, 1]" "parse_ipv4 ''9.0.0.1'' = Some [9, 0, 0, 1]"
  "parse_ipv4 ''5x'' = None"
  using parse_ipv4_parts [of "''192''" "''168''" "''1''" "''9''"] parse_ipv4_parts [of "''192''" "''168''" "''1''" "''4''"]
    parse_ipv4_parts [of "''10''" "''0''" "''0''" "''1''"] parse_ipv4_parts [of "''9''" "''0''" "''0''" "''1''"]
  by (simp_all add: octet_eval parse_ipv4_def numeral_eq_Suc find_char_def)

theorem select_fastest_deterministic_witness:
  "select_fastest_peer [peer_at ''192.168.1.9'' 47790 47791 10, peer_at ''192.168.1.4'' 47790 47792 10,
      peer_at ''192.168.1.4'' 47790 47791 10] = Inr (peer_at ''192.168.1.4'' 47790 47791 10)"
proof -
  let ?a = "peer_at ''192.168.1.9'' 47790 47791 10" and ?b = "peer_at ''192.168.1.4'' 47790 47792 10"
    and ?c = "peer_at ''192.168.1.4'' 47790 47791 10"
  have "select_fastest_peer [?a, ?b, ?c] = Inr (hd [?c, ?b, ?a])"
  proof (rule select_fastest_deterministic [where cs' = "[?a, ?b, ?c]", THEN conjunct1])
    show "sorted_wrt (\<lambda>a b. \<not> faster b a) [?c, ?b, ?a]"
      by (simp add: faster_def source_address_precedes_def peer_at_def parse_ipv4_examples Let_def)
    show "\<forall>c \<in> set [?a, ?b, ?c]. locatable c"
      by (simp add: locatable_def peer_at_def parse_ipv4_examples)
    show "distinct (map tie_key [?a, ?b, ?c])" by (simp add: tie_key_def peer_at_def)
    show "mset [?c, ?b, ?a] = mset [?a, ?b, ?c]" by (simp add: add_mset_commute)
  qed simp_all
  then show ?thesis by simp
qed

text \<open>
  The comparison looks at addresses numerically when both sources parse and at their text
  otherwise. Among peers whose sources are all of one kind it is the order of one key; the
  mixed pattern below, two IPv4 sources whose texts enclose a source of the other kind
  while their values are in the opposite order, is where the two orders disagree.
\<close>

definition text_key :: "DiscoveredPeer \<Rightarrow> real \<times> string \<times> u16 \<times> u16" where
  "text_key p = (- dp_measured_bytes_per_second p, tie_key p)"

lemma faster_text_key:
  assumes "\<not> (locatable l \<and> locatable r)"
  shows "faster l r \<longleftrightarrow> text_key l < text_key r"
  using assms by (auto simp: faster_def source_address_precedes_def locatable_def text_key_def tie_key_def Let_def)

lemma faster_trans:
  assumes "locatable a \<longleftrightarrow> locatable b" and "locatable b \<longleftrightarrow> locatable c" and "faster a b" and "faster b c"
  shows "faster a c"
  using assms by (cases "locatable a") (auto simp: faster_key faster_text_key)

definition misordered :: "DiscoveredPeer \<Rightarrow> DiscoveredPeer \<Rightarrow> DiscoveredPeer \<Rightarrow> bool" where
  "misordered x y z \<longleftrightarrow> locatable x \<and> \<not> locatable y \<and> locatable z \<and>
     dp_source_address x < dp_source_address y \<and> dp_source_address y < dp_source_address z \<and>
     the (parse_ipv4 (dp_source_address z)) < the (parse_ipv4 (dp_source_address x))"

lemma cycle_misordered:
  assumes "locatable x" and "\<not> locatable y" and "locatable z"
  shows "faster x y \<and> faster y z \<and> faster z x \<longleftrightarrow>
     dp_measured_bytes_per_second x = dp_measured_bytes_per_second y \<and>
     dp_measured_bytes_per_second y = dp_measured_bytes_per_second z \<and> misordered x y z"
proof -
  have "dp_source_address x \<noteq> dp_source_address y" "dp_source_address y \<noteq> dp_source_address z"
    using assms by (auto simp: locatable_def)
  then show ?thesis using assms
    by (auto simp: faster_key faster_text_key fast_key_def text_key_def tie_key_def misordered_def)
qed

lemma no_text_cycle:
  assumes "\<not> (locatable x \<and> locatable y)" "\<not> (locatable y \<and> locatable z)" "\<not> (locatable z \<and> locatable x)"
  shows "\<not> (faster x y \<and> faster y z \<and> faster z x)"
  using assms by (auto simp: faster_text_key)

lemma no_numeric_cycle:
  assumes "locatable x" "locatable y" "locatable z"
  shows "\<not> (faster x y \<and> faster y z \<and> faster z x)"
  using assms by (auto simp: faster_key)

text \<open>
  C21. When the comparison of the sort is an order. The public entry point
  \<^verbatim>\<open>select_fastest_peer_for_testing\<close> does not check the sources of its candidates. Among
  candidates whose sources are all IPv4, or all not, the comparison is transitive. Three
  candidates precede each other in a circle, which \<^verbatim>\<open>std::sort\<close> does not allow, exactly when
  their rates are equal and, in some rotation, two IPv4 sources enclose in text order a
  source that is not IPv4 while being numerically in the opposite order.
\<close>

theorem faster_cycle_iff:
  "((locatable a \<longleftrightarrow> locatable b) \<and> (locatable b \<longleftrightarrow> locatable c) \<and> faster a b \<and> faster b c \<longrightarrow> faster a c) \<and>
   (faster a b \<and> faster b c \<and> faster c a \<longleftrightarrow>
      dp_measured_bytes_per_second a = dp_measured_bytes_per_second b \<and>
      dp_measured_bytes_per_second b = dp_measured_bytes_per_second c \<and>
      (misordered a b c \<or> misordered b c a \<or> misordered c a b))"
proof -
  have m: "misordered x y z \<Longrightarrow> locatable x \<and> \<not> locatable y \<and> locatable z" for x y z
    by (simp add: misordered_def)
  have "faster a b \<and> faster b c \<and> faster c a \<longleftrightarrow>
      dp_measured_bytes_per_second a = dp_measured_bytes_per_second b \<and>
      dp_measured_bytes_per_second b = dp_measured_bytes_per_second c \<and>
      (misordered a b c \<or> misordered b c a \<or> misordered c a b)"
    using m [of a b c] m [of b c a] m [of c a b] no_text_cycle [of a b c] no_numeric_cycle [of a b c]
      cycle_misordered [of a b c] cycle_misordered [of b c a] cycle_misordered [of c a b]
    by (cases "locatable a"; cases "locatable b"; cases "locatable c") auto
  with faster_trans [of a b c] show ?thesis by blast
qed

theorem faster_cycle_iff_witness:
  "faster (peer_at ''10.0.0.1'' 1 1 0) (peer_at ''5x'' 1 1 0) \<and>
   faster (peer_at ''5x'' 1 1 0) (peer_at ''9.0.0.1'' 1 1 0) \<and>
   faster (peer_at ''9.0.0.1'' 1 1 0) (peer_at ''10.0.0.1'' 1 1 0) \<and>
   faster (peer_at ''9.0.0.1'' 1 1 0) (peer_at ''192.168.1.9'' 1 1 0)"
proof -
  let ?a = "peer_at ''10.0.0.1'' 1 1 0" and ?b = "peer_at ''5x'' 1 1 0" and ?c = "peer_at ''9.0.0.1'' 1 1 0"
    and ?d = "peer_at ''192.168.1.9'' 1 1 0"
  have "misordered ?a ?b ?c"
    by (simp add: misordered_def locatable_def peer_at_def parse_ipv4_examples less_char_def)
  then have 1: "faster ?a ?b \<and> faster ?b ?c \<and> faster ?c ?a"
    using faster_cycle_iff [of ?a ?b ?c] by (simp add: peer_at_def)
  have "faster ?a ?d" "locatable ?a" "locatable ?c" "locatable ?d"
    by (simp_all add: faster_def source_address_precedes_def locatable_def peer_at_def parse_ipv4_examples Let_def)
  with 1 have "faster ?c ?d" using faster_cycle_iff [of ?c ?a ?d] by blast
  with 1 show ?thesis by blast
qed

section \<open>De-duplication\<close>

text \<open>The valid replies in order, and the first of each key among them.\<close>

definition valid_replies :: "reply list \<Rightarrow> DiscoveredPeer list" where
  "valid_replies replies = List.map_filter (\<lambda>(message, source). parse_peer_advertisement message source) replies"

fun firsts :: "(string \<times> u16 \<times> u16) set \<Rightarrow> DiscoveredPeer list \<Rightarrow> DiscoveredPeer list" where
  "firsts seen [] = []"
| "firsts seen (p # ps) =
     (if candidate_key p \<in> seen then firsts seen ps else p # firsts (insert (candidate_key p) seen) ps)"

lemma valid_replies_simps [simp]:
  "valid_replies [] = []"
  "valid_replies ((m, src) # rs) =
     (case parse_peer_advertisement m src of None \<Rightarrow> valid_replies rs | Some p \<Rightarrow> p # valid_replies rs)"
  by (auto simp: valid_replies_def List.map_filter_def split: option.split)

lemma deduplicate_loop_firsts: "deduplicate_loop rs keys cs = cs @ firsts keys (valid_replies rs)"
  by (induction rs keys cs rule: deduplicate_loop.induct) (auto split: option.split)

lemma deduplicate_firsts: "deduplicate_candidates rs = firsts {} (valid_replies rs)"
  by (simp add: deduplicate_candidates_def deduplicate_loop_firsts)

lemma set_firsts: "set (firsts seen ps) \<subseteq> set ps"
  by (induction ps arbitrary: seen) (auto split: if_splits dest: subsetD)

lemma firsts_keys: "candidate_key ` set (firsts seen ps) = candidate_key ` set ps - seen"
  by (induction ps arbitrary: seen) auto

lemma firsts_distinct: "distinct (map candidate_key (firsts seen ps))"
proof (induction ps arbitrary: seen)
  case Nil
  then show ?case by simp
next
  case (Cons p ps)
  have "candidate_key p \<notin> candidate_key ` set (firsts (insert (candidate_key p) seen) ps)"
    unfolding firsts_keys by simp
  with Cons show ?case by simp
qed

lemma firsts_first:
  assumes "p \<in> set (firsts seen ps)"
  shows "\<exists>pre post. ps = pre @ p # post \<and> candidate_key p \<notin> candidate_key ` set pre"
  using assms
proof (induction ps arbitrary: seen)
  case Nil
  then show ?case by simp
next
  case (Cons q ps)
  show ?case
  proof (cases "p = q \<and> candidate_key q \<notin> seen")
    case True
    then show ?thesis by (intro exI [of _ "[]"] exI [of _ ps]) simp
  next
    case False
    let ?seen = "if candidate_key q \<in> seen then seen else insert (candidate_key q) seen"
    from Cons.prems False have p: "p \<in> set (firsts ?seen ps)" by (auto split: if_splits)
    from Cons.IH [OF p] obtain pre post where "ps = pre @ p # post"
      "candidate_key p \<notin> candidate_key ` set pre" by blast
    moreover have "candidate_key p \<notin> ?seen"
      using imageI [OF p, of candidate_key] unfolding firsts_keys by simp
    then have "candidate_key p \<noteq> candidate_key q" by (auto split: if_splits)
    ultimately show ?thesis by (intro exI [of _ "q # pre"] exI [of _ post]) auto
  qed
qed

text \<open>
  C14. De-duplication keeps exactly one candidate per (host, transfer port, probe port) that some
  valid reply advertises, and it is the first such reply; invalid datagrams contribute
  nothing and remove nothing.
\<close>

theorem deduplicate_candidates_first_of_each_key:
  "distinct (map candidate_key (deduplicate_candidates replies)) \<and>
   candidate_key ` set (deduplicate_candidates replies) = candidate_key ` set (valid_replies replies) \<and>
   (\<forall>p \<in> set (deduplicate_candidates replies). \<exists>pre post. valid_replies replies = pre @ p # post \<and>
      candidate_key p \<notin> candidate_key ` set pre)"
  using firsts_distinct firsts_keys [of "{}"] firsts_first by (auto simp: deduplicate_firsts)

section \<open>Ranking\<close>

text \<open>What each candidate's probe gave, in the order of probing.\<close>

fun probe_outcomes ::
  "(DiscoveredPeer \<Rightarrow> ('w, real) eff) \<Rightarrow> DiscoveredPeer list \<Rightarrow> 'w \<Rightarrow>
   (DiscoveredPeer \<times> real result) list \<times> 'w" where
  "probe_outcomes probe [] w = ([], w)"
| "probe_outcomes probe (c # cs) w =
     (case probe c w of (r, w1) \<Rightarrow> case probe_outcomes probe cs w1 of (rs, w2) \<Rightarrow> ((c, r) # rs, w2))"

definition measured :: "DiscoveredPeer \<times> real result \<Rightarrow> DiscoveredPeer option" where
  "measured cr = (case cr of (c, Inr rate) \<Rightarrow> Some (c\<lparr>dp_measured_bytes_per_second := rate\<rparr>) | (_, Inl _) \<Rightarrow> None)"

definition failure :: "DiscoveredPeer \<times> real result \<Rightarrow> string option" where
  "failure cr = (case cr of (c, Inl e) \<Rightarrow> Some (pe_host (dp_endpoint c) @ '': '' @ what e) | (_, Inr _) \<Rightarrow> None)"

lemma probe_loop_outcomes:
  "probe_loop probe cs succ fails w =
     (case probe_outcomes probe cs w of (rs, w') \<Rightarrow>
       ((succ @ List.map_filter measured rs, fails @ List.map_filter failure rs), w'))"
  by (induction probe cs succ fails w rule: probe_loop.induct)
    (auto simp: List.map_filter_def measured_def failure_def split: prod.splits sum.splits)

lemma probe_outcomes_fst: "map fst (fst (probe_outcomes probe cs w)) = cs"
  by (induction probe cs w rule: probe_outcomes.induct) (auto split: prod.splits)

lemma in_map_filter: "x \<in> set (List.map_filter f xs) \<longleftrightarrow> (\<exists>y \<in> set xs. f y = Some x)"
  by (auto simp: List.map_filter_def image_iff)

lemma measured_source: "measured r = Some d \<Longrightarrow> dp_source_address d = dp_source_address (fst r)"
  by (auto simp: measured_def split: prod.splits sum.splits)

lemma map_filter_tie_key:
  "map tie_key (List.map_filter measured rs) = map (tie_key \<circ> fst) (filter (\<lambda>r. measured r \<noteq> None) rs)"
  by (induction rs) (auto simp: List.map_filter_def measured_def tie_key_def split: prod.splits sum.splits)

lemma deduplicated_valid:
  assumes "c \<in> set (deduplicate_candidates replies)"
  shows "locatable c \<and> tie_key c = candidate_key c"
proof -
  from assms set_firsts have "c \<in> set (valid_replies replies)" by (auto simp: deduplicate_firsts)
  then obtain m src where "parse_peer_advertisement m src = Some c"
    by (auto simp: valid_replies_def in_map_filter)
  then have "advertises m src c" by (rule parse_advertisement_advertises)
  then show ?thesis by (auto simp: advertises_def locatable_def tie_key_def candidate_key_def)
qed

lemma measured_candidates:
  assumes "map fst rs = deduplicate_candidates replies"
  shows "distinct (map tie_key (List.map_filter measured rs))"
    and "\<forall>c \<in> set (List.map_filter measured rs). locatable c"
proof -
  have c: "fst r \<in> set (deduplicate_candidates replies)" if "r \<in> set rs" for r
    using imageI [OF that, of fst] by (simp add: assms [symmetric])
  then have "map (tie_key \<circ> fst) rs = map (candidate_key \<circ> fst) rs"
    using deduplicated_valid by (auto simp: comp_def)
  also have "\<dots> = map candidate_key (deduplicate_candidates replies)"
    by (simp only: assms [symmetric] map_map)
  finally have "distinct (map (tie_key \<circ> fst) rs)" using firsts_distinct by (simp add: deduplicate_firsts)
  then show "distinct (map tie_key (List.map_filter measured rs))"
    unfolding map_filter_tie_key by (rule distinct_map_filter)
  show "\<forall>d \<in> set (List.map_filter measured rs). locatable d"
  proof
    fix d
    assume "d \<in> set (List.map_filter measured rs)"
    then obtain r where r: "r \<in> set rs" "measured r = Some d" by (auto simp: in_map_filter)
    have "locatable (fst r)" using c [OF r(1)] deduplicated_valid by blast
    with measured_source [OF r(2)] show "locatable d" by (simp add: locatable_def)
  qed
qed

lemma rank_by_outcomes:
  assumes "probe_outcomes probe (deduplicate_candidates replies) w = (rs, w')"
  shows "rank_candidates probe replies w =
    (if rs = [] then (Inl no_peer, w)
     else if List.map_filter measured rs = [] then (Inl (all_failed (List.map_filter failure rs)), w')
     else (select_fastest_peer (List.map_filter measured rs), w'))"
  using assms probe_outcomes_fst [of probe "deduplicate_candidates replies" w]
  by (auto simp: rank_candidates_def probe_loop_outcomes Let_def)

lemma select_fastest_measured:
  assumes cs: "map fst rs = deduplicate_candidates replies" and "List.map_filter measured rs \<noteq> []"
  shows "\<exists>p. select_fastest_peer (List.map_filter measured rs) = Inr p \<and> p \<in> set (List.map_filter measured rs) \<and>
    (\<forall>c \<in> set (List.map_filter measured rs). c \<noteq> p \<longrightarrow> faster p c)"
proof -
  let ?ms = "List.map_filter measured rs"
  have "sorted (map fast_key (sort_by faster ?ms))"
    by (rule sorted_sort_by) (use measured_candidates(2) [OF cs] in \<open>simp add: faster_key\<close>)
  then have "sorted_wrt (\<lambda>a b. \<not> faster b a) (sort_by faster ?ms)"
    unfolding sorted_map by (rule sorted_wrt_mono_rel [rotated])
      (use measured_candidates(2) [OF cs] in \<open>auto simp: faster_key\<close>)
  from select_fastest_winner [OF assms(2) measured_candidates(2) [OF cs] measured_candidates(1) [OF cs] _ this]
  show ?thesis by auto
qed

text \<open>
  C12. Ranking, with any probe. Every de-duplicated candidate is probed exactly once, in order. With no
  candidate the error is \<^verbatim>\<open>no Hyperlink peer discovered\<close> and nothing is probed; if every probe
  fails the error is \<^verbatim>\<open>all Hyperlink peer probes failed\<close> (the design document has another
  text for this case) followed by each host with its reason, in order; otherwise the result is a
  candidate whose probe succeeded, with the rate measured, and it beats every other one
  that succeeded.
\<close>

theorem rank_candidates_correct:
  assumes "probe_outcomes probe (deduplicate_candidates replies) w = (rs, w')"
  shows "map fst rs = deduplicate_candidates replies \<and>
    (rs = [] \<longrightarrow> rank_candidates probe replies w = (Inl no_peer, w)) \<and>
    (rs \<noteq> [] \<and> List.map_filter measured rs = [] \<longrightarrow>
       rank_candidates probe replies w = (Inl (all_failed (List.map_filter failure rs)), w')) \<and>
    (List.map_filter measured rs \<noteq> [] \<longrightarrow>
       (\<exists>p. rank_candidates probe replies w = (Inr p, w') \<and> p \<in> set (List.map_filter measured rs) \<and>
          (\<forall>c \<in> set (List.map_filter measured rs). c \<noteq> p \<longrightarrow> faster p c)))"
proof -
  have cs: "map fst rs = deduplicate_candidates replies"
    using probe_outcomes_fst [of probe "deduplicate_candidates replies" w] assms by simp
  moreover have "rs = [] \<Longrightarrow> List.map_filter measured rs = []" by (simp add: List.map_filter_def)
  ultimately show ?thesis using select_fastest_measured [OF cs] by (auto simp: rank_by_outcomes [OF assms])
qed

section \<open>The harness\<close>

lemma harness_probe_state:
  "snd (harness_probe c h) = h\<lparr>th_probed_endpoints := th_probed_endpoints h @ [probe_key c]\<rparr>"
  by (auto simp: harness_probe_def Let_def split: option.split)

lemma harness_probe_outcomes_state:
  "snd (probe_outcomes harness_probe cs h) =
     h\<lparr>th_probed_endpoints := th_probed_endpoints h @ map probe_key cs\<rparr>"
proof (induction cs arbitrary: h)
  case Nil
  then show ?case by simp
next
  case (Cons c cs)
  then show ?case using harness_probe_state [of c h] by (simp add: case_prod_unfold)
qed

text \<open>
  C20. The test harness records every de-duplicated candidate's probe endpoint exactly once, in reply
  order, also when probes fail, and changes nothing else.
\<close>

theorem harness_probes_each_candidate_once:
  "snd (harness_select_fastest h) =
     h\<lparr>th_probed_endpoints := th_probed_endpoints h @ map probe_key (deduplicate_candidates (th_replies h))\<rparr>"
proof -
  obtain rs h' where o: "probe_outcomes harness_probe (deduplicate_candidates (th_replies h)) h = (rs, h')"
    by fastforce
  have h': "h' = h\<lparr>th_probed_endpoints := th_probed_endpoints h @
      map probe_key (deduplicate_candidates (th_replies h))\<rparr>"
    using harness_probe_outcomes_state [of "deduplicate_candidates (th_replies h)" h] o by simp
  then show ?thesis
    using o by (auto simp: harness_select_fastest_def discover_and_rank_def rank_candidates_def
        probe_loop_outcomes Let_def)
qed

section \<open>Witnesses\<close>

text \<open>The replies of the ranking test: one peer answering twice, one faster peer, one garbage.\<close>

definition test_replies :: "reply list" where
  "test_replies = [(''HLINK_PEER_V2 47790 47791 1 slow'', ''192.168.1.9''), (''garbage'', ''192.168.1.9''),
     (''HLINK_PEER_V2 47790 47791 1 slow'', ''192.168.1.9''),
     (''HLINK_PEER_V2 47790 47792 1 fast'', ''192.168.1.4'')]"

definition slow_peer :: DiscoveredPeer where
  "slow_peer = (peer_at ''192.168.1.9'' 47790 47791 0)\<lparr>dp_display_name := ''slow''\<rparr>"

definition fast_peer :: DiscoveredPeer where
  "fast_peer = (peer_at ''192.168.1.4'' 47790 47792 0)\<lparr>dp_display_name := ''fast''\<rparr>"

lemma test_replies_parse [simp]:
  "parse_peer_advertisement ''HLINK_PEER_V2 47790 47791 1 slow'' ''192.168.1.9'' = Some slow_peer"
  "parse_peer_advertisement ''HLINK_PEER_V2 47790 47792 1 fast'' ''192.168.1.4'' = Some fast_peer"
  "parse_peer_advertisement ''garbage'' ''192.168.1.9'' = None"
  using parse_advertisement_fields [of "''HLINK_PEER_V2 47790 47791 1 slow''" "''47790''" "''47791''" "''1''" "''slow''" "''192.168.1.9''"]
    parse_advertisement_fields [of "''HLINK_PEER_V2 47790 47792 1 fast''" "''47790''" "''47792''" "''1''" "''fast''" "''192.168.1.4''"]
  by (simp_all add: kAdvertisementPrefix_def parse_ipv4_examples port_field_def streams_field_def
      is_decimal_def isdigit_def dec_value_def digit_value_def advertised_peer_def slow_peer_def
      fast_peer_def peer_at_def parse_peer_advertisement_def starts_with_def)

lemma test_replies_candidates: "deduplicate_candidates test_replies = [slow_peer, fast_peer]"
  by (simp add: deduplicate_candidates_def test_replies_def)
    (simp add: candidate_key_def slow_peer_def fast_peer_def peer_at_def)

theorem deduplicate_candidates_first_of_each_key_witness:
  "distinct (map candidate_key [slow_peer, fast_peer]) \<and>
   (\<exists>pre post. valid_replies test_replies = pre @ fast_peer # post \<and>
      candidate_key fast_peer \<notin> candidate_key ` set pre)"
  using deduplicate_candidates_first_of_each_key [of test_replies] by (simp add: test_replies_candidates)

theorem rank_candidates_correct_witness:
  "let probe = (\<lambda>c w :: nat. (if dp_display_name c = ''fast'' then Inr 15 else Inr 5, w + 1)) in
   rank_candidates probe test_replies 0 = (Inr (fast_peer\<lparr>dp_measured_bytes_per_second := 15\<rparr>), 2)"
proof -
  let ?probe = "\<lambda>c w :: nat. (if dp_display_name c = ''fast'' then Inr 15 else Inr 5 :: real result, w + 1)"
  let ?s = "slow_peer\<lparr>dp_measured_bytes_per_second := 5\<rparr>"
  let ?f = "fast_peer\<lparr>dp_measured_bytes_per_second := 15\<rparr>"
  have "probe_outcomes ?probe (deduplicate_candidates test_replies) 0 =
      ([(slow_peer, Inr 5), (fast_peer, Inr 15)], 2)"
    by (simp add: test_replies_candidates) (simp add: slow_peer_def fast_peer_def)
  note r = rank_candidates_correct [OF this]
  have ms: "List.map_filter measured [(slow_peer, Inr 5), (fast_peer, Inr 15)] = [?s, ?f]"
    by (simp add: List.map_filter_def measured_def)
  have nf: "\<not> faster ?s ?f" by (simp add: faster_def)
  from r obtain p where p: "rank_candidates ?probe test_replies 0 = (Inr p, 2)" "p \<in> {?s, ?f}"
    "\<forall>c \<in> {?s, ?f}. c \<noteq> p \<longrightarrow> faster p c" unfolding ms by auto
  have "?f \<noteq> ?s" by (simp add: slow_peer_def fast_peer_def peer_at_def)
  with p nf have "p = ?f" by blast
  with p(1) show ?thesis by simp
qed

end
