(* ===== verification/Socket_Api.thy ===== *)
theory Socket_Api
  imports Hyperlink_Prelude
begin

text \<open>
  The operating system as the sources see it. System and C-library calls (sockets,
  \<^verbatim>\<open>select\<close>, name resolution, the steady clock) are code outside the repository: they are the
  fields of one record, over an arbitrary type of world, and every definition that uses
  them takes the record as an argument. What the code relies on is stated as the
  assumptions of locales: file descriptors are fresh when handed out and live until
  closed, and data on a connected descriptor is an ordered byte stream whose partial
  sends and receives report how much was moved, and the clock advances. Results are those of the POSIX calls:
  \<open>-1\<close> is an invalid descriptor.
\<close>

section \<open>The calls\<close>

datatype family = AF_UNSPEC | AF_INET | AF_INET6
datatype socktype = SOCK_STREAM | SOCK_DGRAM
datatype protocol = IPPROTO_TCP | IPPROTO_UDP
datatype sockopt = SO_REUSEADDR | SO_BROADCAST | SO_SNDBUF | SO_RCVBUF | TCP_NODELAY

text \<open>A socket address: an IPv4 address (as \<^verbatim>\<open>inet_pton\<close> reads it) with a port, or a resolved one.\<close>

datatype sockaddr = Inet u32 u16 | Resolved string

record addrinfo =
  ai_family :: family
  ai_socktype :: socktype
  ai_protocol :: protocol
  ai_addr :: sockaddr

record addrinfo_hints =
  hint_family :: family
  hint_socktype :: socktype
  hint_protocol :: protocol
  hint_passive :: bool

text \<open>An entry of the interface list; addresses in the order in which \<^verbatim>\<open>s_addr\<close> holds them.\<close>

record ifaddr =
  ifa_addr :: "(family \<times> u32) option"
  ifa_up :: bool
  ifa_broadaddr :: "u32 option"
  ifa_netmask :: "u32 option"

record 'w socket_api =
  sys_getifaddrs :: "'w \<Rightarrow> (int \<times> ifaddr list) \<times> 'w"
  sys_getaddrinfo :: "string option \<Rightarrow> string \<Rightarrow> addrinfo_hints \<Rightarrow> 'w \<Rightarrow> (int \<times> addrinfo list) \<times> 'w"
  sys_gai_strerror :: "int \<Rightarrow> string"
  sys_socket :: "family \<Rightarrow> socktype \<Rightarrow> protocol \<Rightarrow> 'w \<Rightarrow> int \<times> 'w"
  sys_setsockopt :: "int \<Rightarrow> sockopt \<Rightarrow> int \<Rightarrow> 'w \<Rightarrow> 'w"
  sys_connect :: "int \<Rightarrow> sockaddr \<Rightarrow> 'w \<Rightarrow> int \<times> 'w"
  sys_bind :: "int \<Rightarrow> sockaddr \<Rightarrow> 'w \<Rightarrow> int \<times> 'w"
  sys_listen :: "int \<Rightarrow> int \<Rightarrow> 'w \<Rightarrow> int \<times> 'w"
  sys_accept :: "int \<Rightarrow> 'w \<Rightarrow> int \<times> 'w"
  sys_send :: "int \<Rightarrow> byte list \<Rightarrow> 'w \<Rightarrow> int \<times> 'w"
  sys_recv :: "int \<Rightarrow> nat \<Rightarrow> 'w \<Rightarrow> (int \<times> byte list) \<times> 'w"
  sys_sendto :: "int \<Rightarrow> string \<Rightarrow> sockaddr \<Rightarrow> 'w \<Rightarrow> int \<times> 'w"
  sys_recvfrom :: "int \<Rightarrow> nat \<Rightarrow> 'w \<Rightarrow> (int \<times> string \<times> sockaddr) \<times> 'w"
  sys_select :: "int list \<Rightarrow> int list \<Rightarrow> int \<Rightarrow> 'w \<Rightarrow> (int \<times> int list \<times> int list) \<times> 'w"
  sys_getfl :: "int \<Rightarrow> 'w \<Rightarrow> int \<times> 'w"
  sys_setfl_nonblock :: "int \<Rightarrow> int \<Rightarrow> 'w \<Rightarrow> int \<times> 'w"
  sys_so_error :: "int \<Rightarrow> 'w \<Rightarrow> (int \<times> int) \<times> 'w"
  sys_close :: "int \<Rightarrow> 'w \<Rightarrow> 'w"
  sys_errno_would_block :: "'w \<Rightarrow> bool"
  sys_errno_in_progress :: "'w \<Rightarrow> bool"
  sys_last_error :: "'w \<Rightarrow> string"
  sys_strerror :: "int \<Rightarrow> string"
  sys_inet_pton :: "string \<Rightarrow> u32 option"
  sys_inet_ntop :: "sockaddr \<Rightarrow> string"
  sys_now :: "'w \<Rightarrow> int \<times> 'w"

section \<open>Descriptors\<close>

text \<open>
  What POSIX documents of descriptors: \<^verbatim>\<open>socket\<close> and \<^verbatim>\<open>accept\<close> return \<open>-1\<close> or a descriptor
  that is not open, which is then open; \<^verbatim>\<open>close\<close> closes its argument; no other call opens or
  closes one.
\<close>

locale descriptors =
  fixes api :: "'w socket_api"
    and open_fds :: "'w \<Rightarrow> int set"
  assumes socket_fd: "sys_socket api f t p w = (fd, w') \<Longrightarrow>
      (fd = -1 \<and> open_fds w' = open_fds w) \<or>
      (fd \<noteq> -1 \<and> fd \<notin> open_fds w \<and> open_fds w' = insert fd (open_fds w))"
    and accept_fd: "sys_accept api l w = (fd, w') \<Longrightarrow>
      (fd = -1 \<and> open_fds w' = open_fds w) \<or>
      (fd \<noteq> -1 \<and> fd \<notin> open_fds w \<and> open_fds w' = insert fd (open_fds w))"
    and close_fd: "open_fds (sys_close api fd w) = open_fds w - {fd}"
    and other_fd:
      "open_fds (snd (sys_getaddrinfo api h s hints w)) = open_fds w"
      "open_fds (snd (sys_getifaddrs api w)) = open_fds w"
      "open_fds (sys_setsockopt api fd opt v w) = open_fds w"
      "open_fds (snd (sys_connect api fd a w)) = open_fds w"
      "open_fds (snd (sys_bind api fd a w)) = open_fds w"
      "open_fds (snd (sys_listen api fd n w)) = open_fds w"
      "open_fds (snd (sys_send api fd data w)) = open_fds w"
      "open_fds (snd (sys_recv api fd m w)) = open_fds w"
      "open_fds (snd (sys_sendto api fd text a w)) = open_fds w"
      "open_fds (snd (sys_recvfrom api fd m w)) = open_fds w"
      "open_fds (snd (sys_select api rs ws timeout w)) = open_fds w"
      "open_fds (snd (sys_getfl api fd w)) = open_fds w"
      "open_fds (snd (sys_setfl_nonblock api fd n w)) = open_fds w"
      "open_fds (snd (sys_so_error api fd w)) = open_fds w"
      "open_fds (snd (sys_now api w)) = open_fds w"
begin

text \<open>The frame facts in the form in which a call's result is named.\<close>

lemma other_fd_eq:
  "sys_getaddrinfo api h s hints w = (r1, w') \<Longrightarrow> open_fds w' = open_fds w"
  "sys_connect api fd a w = (r2, w') \<Longrightarrow> open_fds w' = open_fds w"
  "sys_bind api fd a w = (r2, w') \<Longrightarrow> open_fds w' = open_fds w"
  "sys_listen api fd n w = (r2, w') \<Longrightarrow> open_fds w' = open_fds w"
  "sys_send api fd data w = (r2, w') \<Longrightarrow> open_fds w' = open_fds w"
  "sys_recv api fd m w = (r3, w') \<Longrightarrow> open_fds w' = open_fds w"
  "sys_sendto api fd text a w = (r2, w') \<Longrightarrow> open_fds w' = open_fds w"
  "sys_recvfrom api fd m w = (r4, w') \<Longrightarrow> open_fds w' = open_fds w"
  "sys_select api rs ws timeout w = (r5, w') \<Longrightarrow> open_fds w' = open_fds w"
  "sys_getfl api fd w = (r2, w') \<Longrightarrow> open_fds w' = open_fds w"
  "sys_setfl_nonblock api fd n w = (r2, w') \<Longrightarrow> open_fds w' = open_fds w"
  "sys_so_error api fd w = (r6, w') \<Longrightarrow> open_fds w' = open_fds w"
  "sys_now api w = (r2, w') \<Longrightarrow> open_fds w' = open_fds w"
  "sys_getifaddrs api w = (r7, w') \<Longrightarrow> open_fds w' = open_fds w"
  using other_fd by (metis snd_conv)+

end

text \<open>
  The stream laws: a send accepts a prefix of its data, a receive delivers the next bytes of
  what the peer sent; zero bytes mean the end of the stream (or an empty request).
\<close>

locale stream_sockets = descriptors api open_fds
  for api :: "'w socket_api" and open_fds :: "'w \<Rightarrow> int set" +
  fixes outbox :: "'w \<Rightarrow> int \<Rightarrow> byte list"
    and inbox :: "'w \<Rightarrow> int \<Rightarrow> byte list"
  assumes send_law: "sys_send api fd data w = (r, w') \<Longrightarrow>
      r \<le> int (length data) \<and> outbox w' fd = outbox w fd @ take (nat r) data \<and> inbox w' fd = inbox w fd"
    and recv_law: "sys_recv api fd n w = ((r, data), w') \<Longrightarrow> 0 \<le> r \<Longrightarrow>
      length data = nat r \<and> nat r \<le> n \<and> inbox w fd = data @ inbox w' fd \<and>
      outbox w' fd = outbox w fd \<and> (r = 0 \<longrightarrow> n = 0 \<or> inbox w fd = [])"

text \<open>A connection that stays up: calls on it do not report errors.\<close>

locale healthy_sockets = stream_sockets api open_fds outbox inbox
  for api :: "'w socket_api" and open_fds outbox inbox +
  fixes healthy :: "'w \<Rightarrow> int \<Rightarrow> bool"
  assumes send_healthy: "healthy w fd \<Longrightarrow> data \<noteq> [] \<Longrightarrow>
      0 < fst (sys_send api fd data w) \<and> healthy (snd (sys_send api fd data w)) fd"
    and recv_healthy: "healthy w fd \<Longrightarrow>
      0 \<le> fst (fst (sys_recv api fd n w)) \<and> healthy (snd (sys_recv api fd n w)) fd"

text \<open>
  Time passes: a reading of the steady clock gives the time of the world, two readings are
  at least a nanosecond apart, and no call sets the clock back. The standard only promises
  that the clock is not set back; that it moves between two readings is the idealisation
  under which the loops that wait for a deadline end, and every theorem that needs it has it
  as a hypothesis.
\<close>

locale clocked_sockets = stream_sockets api open_fds outbox inbox
  for api :: "'w socket_api" and open_fds outbox inbox +
  fixes time :: "'w \<Rightarrow> int"
  assumes now_law: "sys_now api w = (t, w') \<Longrightarrow> t = time w \<and> time w < time w'"
    and select_time: "time w \<le> time (snd (sys_select api rs ws timeout w))"
    and recv_time: "time w \<le> time (snd (sys_recv api fd n w))"
    and recvfrom_time: "time w \<le> time (snd (sys_recvfrom api fd n w))"
begin

lemma time_eq:
  "sys_select api rs ws timeout w = (r1, w') \<Longrightarrow> time w \<le> time w'"
  "sys_recv api fd n w = (r2, w') \<Longrightarrow> time w \<le> time w'"
  "sys_recvfrom api fd n w = (r3, w') \<Longrightarrow> time w \<le> time w'"
  using select_time recv_time recvfrom_time by (metis snd_conv)+

end

section \<open>An in-memory instance\<close>

text \<open>
  A concrete world that satisfies every law, for evaluating the definitions: descriptors
  are counted up, a send takes at most five bytes and a receive gives at most three, so
  that the loops of the code really iterate.
\<close>

record mem_world =
  mw_next :: int
  mw_open :: "int set"
  mw_out :: "int \<Rightarrow> byte list"
  mw_in :: "int \<Rightarrow> byte list"
  mw_clock :: int

definition mem_fresh :: "mem_world \<Rightarrow> int \<times> mem_world" where
  "mem_fresh w = (if mw_next w = -1 \<or> mw_next w \<in> mw_open w then (-1, w)
     else (mw_next w, w\<lparr>mw_open := insert (mw_next w) (mw_open w), mw_next := mw_next w + 1\<rparr>))"

definition mem_api :: "mem_world socket_api" where
  "mem_api =
     \<lparr>sys_getifaddrs = \<lambda>w. ((-1, []), w),
      sys_getaddrinfo = \<lambda>host port hints w. ((0, [\<lparr>ai_family = AF_INET, ai_socktype = SOCK_STREAM,
        ai_protocol = IPPROTO_TCP, ai_addr = Resolved port\<rparr>]), w),
      sys_gai_strerror = \<lambda>_. ''resolve'',
      sys_socket = \<lambda>_ _ _ w. mem_fresh w,
      sys_setsockopt = \<lambda>_ _ _ w. w,
      sys_connect = \<lambda>_ _ w. (0, w),
      sys_bind = \<lambda>_ _ w. (0, w),
      sys_listen = \<lambda>_ _ w. (0, w),
      sys_accept = \<lambda>_ w. mem_fresh w,
      sys_send = \<lambda>fd data w. (int (min 5 (length data)),
        w\<lparr>mw_out := (mw_out w)(fd := mw_out w fd @ take (min 5 (length data)) data)\<rparr>),
      sys_recv = \<lambda>fd n w. (let data = take (min n 3) (mw_in w fd) in
        ((int (length data), data), w\<lparr>mw_in := (mw_in w)(fd := drop (min n 3) (mw_in w fd))\<rparr>)),
      sys_sendto = \<lambda>_ text _ w. (int (length text), w),
      sys_recvfrom = \<lambda>_ _ w. ((0, [], Resolved []), w),
      sys_select = \<lambda>rs ws _ w. ((int (length rs + length ws), rs, ws), w),
      sys_getfl = \<lambda>_ w. (0, w),
      sys_setfl_nonblock = \<lambda>_ _ w. (0, w),
      sys_so_error = \<lambda>_ w. ((0, 0), w),
      sys_close = \<lambda>fd w. w\<lparr>mw_open := mw_open w - {fd}\<rparr>,
      sys_errno_would_block = \<lambda>_. False,
      sys_errno_in_progress = \<lambda>_. False,
      sys_last_error = \<lambda>_. ''error'',
      sys_strerror = \<lambda>_. ''error'',
      sys_inet_pton = \<lambda>s. if s = [] then None else Some 0,
      sys_inet_ntop = \<lambda>_. ''127.0.0.1'',
      sys_now = \<lambda>w. (mw_clock w, w\<lparr>mw_clock := mw_clock w + 1\<rparr>)\<rparr>"

definition mem_start :: mem_world where
  "mem_start = \<lparr>mw_next = 3, mw_open = {0, 1, 2}, mw_out = (\<lambda>_. []), mw_in = (\<lambda>_. []), mw_clock = 0\<rparr>"

lemma mem_fresh_law:
  "mem_fresh w = (fd, w') \<Longrightarrow>
     (fd = -1 \<and> mw_open w' = mw_open w) \<or>
     (fd \<noteq> -1 \<and> fd \<notin> mw_open w \<and> mw_open w' = insert fd (mw_open w))"
  by (auto simp: mem_fresh_def split: if_splits)

interpretation mem: healthy_sockets mem_api mw_open mw_out mw_in "\<lambda>_ _. True"
proof unfold_locales
  fix fd n r data and w w' :: mem_world
  assume "sys_recv mem_api fd n w = ((r, data), w')" and "0 \<le> r"
  then show "length data = nat r \<and> nat r \<le> n \<and> mw_in w fd = data @ mw_in w' fd \<and>
      mw_out w' fd = mw_out w fd \<and> (r = 0 \<longrightarrow> n = 0 \<or> mw_in w fd = [])"
    by (auto simp: mem_api_def Let_def min_def split: if_splits)
qed (auto simp: mem_api_def Let_def dest: mem_fresh_law)

interpretation mem_clock: clocked_sockets mem_api mw_open mw_out mw_in mw_clock
  by unfold_locales (auto simp: mem_api_def Let_def)

end
