(* ===== verification/Tcp_Transport.thy ===== *)
theory Tcp_Transport
  imports Peer_Discovery Socket_Api
begin

text \<open>
  The TCP transport: \<^verbatim>\<open>src/network_transport.cpp\<close>, POSIX branch, over the socket interface.
  \<^verbatim>\<open>SocketHandle\<close> is a descriptor that its owner closes: every place where the C++ runs a
  destructor or a move assignment of a handle closes explicitly here. The transport is
  shown to implement the stream contract of the session layer, and to leak no descriptor
  and close no foreign one on any path, the error paths included.
\<close>

section \<open>Handles and options\<close>

definition kInvalidSocket :: int where
  "kInvalidSocket = -1"

definition close_socket :: "'w socket_api \<Rightarrow> int \<Rightarrow> 'w \<Rightarrow> 'w" where
  "close_socket api socket w = (if socket \<noteq> kInvalidSocket then sys_close api socket w else w)"

text \<open>\<^verbatim>\<open>SocketHandle::reset\<close>: the old descriptor is closed, the new one kept.\<close>

definition handle_reset :: "'w socket_api \<Rightarrow> int \<Rightarrow> int \<Rightarrow> 'w \<Rightarrow> int \<times> 'w" where
  "handle_reset api old socket w =
     (socket, if old \<noteq> kInvalidSocket then close_socket api old w else w)"

definition port_string :: "u16 \<Rightarrow> string" where
  "port_string port = dec_string (unat port)"

definition hints_for :: "bool \<Rightarrow> addrinfo_hints" where
  "hints_for passive = \<lparr>hint_family = AF_UNSPEC, hint_socktype = SOCK_STREAM,
     hint_protocol = IPPROTO_TCP, hint_passive = passive\<rparr>"

definition resolve_endpoint ::
  "'w socket_api \<Rightarrow> TcpEndpoint \<Rightarrow> bool \<Rightarrow> ('w, addrinfo list) eff" where
  "resolve_endpoint api endpoint passive w =
     (let host = (if passive \<and> te_host endpoint = [] then None else Some (te_host endpoint)) in
      case sys_getaddrinfo api host (port_string (te_port endpoint)) (hints_for passive) w of
        ((status, addresses), w') \<Rightarrow>
          if status \<noteq> 0
          then (Inl (Runtime_error (''getaddrinfo failed: '' @ sys_gai_strerror api status)), w')
          else (Inr addresses, w'))"

definition set_reuse_address :: "'w socket_api \<Rightarrow> int \<Rightarrow> 'w \<Rightarrow> 'w" where
  "set_reuse_address api socket w = sys_setsockopt api socket SO_REUSEADDR 1 w"

definition set_no_delay :: "'w socket_api \<Rightarrow> int \<Rightarrow> 'w \<Rightarrow> 'w" where
  "set_no_delay api socket w = sys_setsockopt api socket TCP_NODELAY 1 w"

definition set_socket_buffer :: "'w socket_api \<Rightarrow> int \<Rightarrow> sockopt \<Rightarrow> u32 \<Rightarrow> 'w \<Rightarrow> 'w" where
  "set_socket_buffer api socket option bytes w =
     (if bytes = 0 then w
      else sys_setsockopt api socket option (sint (min bytes (1024 * 1024 * 1024))) w)"

definition tune_socket :: "'w socket_api \<Rightarrow> int \<Rightarrow> TcpEndpoint \<Rightarrow> 'w \<Rightarrow> 'w" where
  "tune_socket api socket endpoint w =
     set_socket_buffer api socket SO_RCVBUF (te_receive_buffer_bytes endpoint)
       (set_socket_buffer api socket SO_SNDBUF (te_send_buffer_bytes endpoint)
         (set_no_delay api socket w))"

section \<open>Connecting and listening\<close>

text \<open>The loop over the resolved addresses; a handle that is not returned is closed.\<close>

fun connect_loop :: "'w socket_api \<Rightarrow> TcpEndpoint \<Rightarrow> addrinfo list \<Rightarrow> ('w, int) eff" where
  "connect_loop api endpoint [] w =
     (Inl (Runtime_error (''connect failed: '' @ sys_last_error api w)), w)"
| "connect_loop api endpoint (address # addresses) w =
     (case sys_socket api (ai_family address) (ai_socktype address) (ai_protocol address) w of
        (socket, w1) \<Rightarrow>
          if socket = kInvalidSocket then connect_loop api endpoint addresses w1
          else case sys_connect api socket (ai_addr address) w1 of
                 (result, w2) \<Rightarrow>
                   if result = 0 then (Inr socket, tune_socket api socket endpoint w2)
                   else connect_loop api endpoint addresses (close_socket api socket w2))"

definition connect_socket :: "'w socket_api \<Rightarrow> TcpEndpoint \<Rightarrow> ('w, int) eff" where
  "connect_socket api endpoint =
     bindE (resolve_endpoint api endpoint False) (connect_loop api endpoint)"

fun listen_loop :: "'w socket_api \<Rightarrow> addrinfo list \<Rightarrow> ('w, int) eff" where
  "listen_loop api [] w = (Inl (Runtime_error (''listen failed: '' @ sys_last_error api w)), w)"
| "listen_loop api (address # addresses) w =
     (case sys_socket api (ai_family address) (ai_socktype address) (ai_protocol address) w of
        (socket, w1) \<Rightarrow>
          if socket = kInvalidSocket then listen_loop api addresses w1
          else case sys_bind api socket (ai_addr address) (set_reuse_address api socket w1) of
                 (bound, w2) \<Rightarrow>
                   if bound \<noteq> 0 then listen_loop api addresses (close_socket api socket w2)
                   else case sys_listen api socket 1 w2 of
                          (listening, w3) \<Rightarrow>
                            if listening \<noteq> 0 then listen_loop api addresses (close_socket api socket w3)
                            else (Inr socket, w3))"

definition listen_socket :: "'w socket_api \<Rightarrow> TcpEndpoint \<Rightarrow> ('w, int) eff" where
  "listen_socket api endpoint = bindE (resolve_endpoint api endpoint True) (listen_loop api)"

section \<open>The transport\<close>

datatype TcpMode = Client | Server

record TcpTransport =
  tt_mode :: TcpMode
  tt_endpoint :: TcpEndpoint
  tt_data_socket :: int
  tt_listen_socket :: int

text \<open>The state a transport operation sees: the object and the world.\<close>

type_synonym 'w tcp = "TcpTransport \<times> 'w"

definition make_tcp_client_transport :: "TcpEndpoint \<Rightarrow> TcpTransport" where
  "make_tcp_client_transport endpoint = \<lparr>tt_mode = Client, tt_endpoint = endpoint,
     tt_data_socket = kInvalidSocket, tt_listen_socket = kInvalidSocket\<rparr>"

definition make_tcp_server_transport :: "TcpEndpoint \<Rightarrow> TcpTransport" where
  "make_tcp_server_transport bind_endpoint = \<lparr>tt_mode = Server, tt_endpoint = bind_endpoint,
     tt_data_socket = kInvalidSocket, tt_listen_socket = kInvalidSocket\<rparr>"

definition tcp_discover :: "AutoConfigOptions \<Rightarrow> ('w tcp, PeerInfo list) eff" where
  "tcp_discover options s =
     (let transport = fst s;
          display = (if tt_mode transport = Client then ''TCP peer '' else ''TCP listener '') @
            te_host (tt_endpoint transport) @ '':'' @ port_string (te_port (tt_endpoint transport))
      in (Inr [\<lparr>pi_id = display, pi_display_name = display, pi_vendor_id = 0, pi_product_id = 0,
                pi_usb_speed = Unknown, pi_theoretical_bits_per_second = 0,
                pi_supports_high_speed = True, pi_supports_super_speed = True\<rparr>], s))"

definition tcp_connect ::
  "'w socket_api \<Rightarrow> PeerInfo \<Rightarrow> NegotiatedConfig \<Rightarrow> ('w tcp, unit) eff" where
  "tcp_connect api peer config s =
     (case s of (transport, w) \<Rightarrow>
      if tt_mode transport = Client
      then case connect_socket api (tt_endpoint transport) w of
             (Inl e, w1) \<Rightarrow> (Inl e, (transport, w1))
           | (Inr socket, w1) \<Rightarrow>
               (case handle_reset api (tt_data_socket transport) socket w1 of
                  (data, w2) \<Rightarrow> (Inr (), (transport\<lparr>tt_data_socket := data\<rparr>, w2)))
      else case listen_socket api (tt_endpoint transport) w of
             (Inl e, w1) \<Rightarrow> (Inl e, (transport, w1))
           | (Inr socket, w1) \<Rightarrow>
               (case handle_reset api (tt_listen_socket transport) socket w1 of
                  (listener, w2) \<Rightarrow>
                    (let listening = transport\<lparr>tt_listen_socket := listener\<rparr> in
                     case sys_accept api listener w2 of
                       (accepted, w3) \<Rightarrow>
                         if accepted = kInvalidSocket
                         then (Inl (Runtime_error (''accept failed: '' @ sys_last_error api w3)), (listening, w3))
                         else case handle_reset api (tt_data_socket transport) accepted
                                (tune_socket api accepted (tt_endpoint transport) w3) of
                                (data, w4) \<Rightarrow> (Inr (), (listening\<lparr>tt_data_socket := data\<rparr>, w4)))))"

definition tcp_not_connected :: exn where
  "tcp_not_connected = Logic_error ''TCP transport is not connected''"

text \<open>The loop of \<^verbatim>\<open>send\<close> with \<open>sent\<close> bytes already accepted.\<close>

function tcp_send_loop :: "'w socket_api \<Rightarrow> int \<Rightarrow> byte list \<Rightarrow> nat \<Rightarrow> ('w, nat) eff" where
  "tcp_send_loop api socket payload sent w =
     (if sent < length payload
      then let remaining = length payload - sent;
               chunk = min remaining (1024 * 1024)
           in case sys_send api socket (take chunk (drop sent payload)) w of
                (result, w') \<Rightarrow>
                  if result \<le> 0
                  then (Inl (Runtime_error (''send failed: '' @ sys_last_error api w')), w')
                  else tcp_send_loop api socket payload (sent + nat result) w'
      else (Inr sent, w))"
  by pat_completeness auto
termination
  by (relation "measure (\<lambda>(api, socket, payload, sent, w). length payload - sent)") auto

definition tcp_send :: "'w socket_api \<Rightarrow> byte list \<Rightarrow> ('w tcp, nat) eff" where
  "tcp_send api payload s =
     (case s of (transport, w) \<Rightarrow>
      if tt_data_socket transport = kInvalidSocket then (Inl tcp_not_connected, s)
      else case tcp_send_loop api (tt_data_socket transport) payload 0 w of
             (r, w') \<Rightarrow> (r, (transport, w')))"

definition tcp_receive_into :: "'w socket_api \<Rightarrow> nat \<Rightarrow> ('w tcp, byte list) eff" where
  "tcp_receive_into api capacity s =
     (case s of (transport, w) \<Rightarrow>
      if tt_data_socket transport = kInvalidSocket then (Inl tcp_not_connected, s)
      else case sys_recv api (tt_data_socket transport) capacity w of
             ((result, data), w') \<Rightarrow>
               if result < 0
               then (Inl (Runtime_error (''receive failed: '' @ sys_last_error api w')), (transport, w'))
               else (Inr (take (nat result) data), (transport, w')))"

definition tcp_receive :: "'w socket_api \<Rightarrow> nat \<Rightarrow> ('w tcp, byte list) eff" where
  "tcp_receive api max_bytes = tcp_receive_into api max_bytes"

definition tcp_close :: "'w socket_api \<Rightarrow> 'w tcp \<Rightarrow> 'w tcp" where
  "tcp_close api s =
     (case s of (transport, w) \<Rightarrow>
      case handle_reset api (tt_data_socket transport) kInvalidSocket w of
        (data, w1) \<Rightarrow>
      case handle_reset api (tt_listen_socket transport) kInvalidSocket w1 of
        (listener, w2) \<Rightarrow>
          (transport\<lparr>tt_data_socket := data, tt_listen_socket := listener\<rparr>, w2))"

text \<open>The implicit destructor: the handles in reverse order of declaration.\<close>

definition tcp_destroy :: "'w socket_api \<Rightarrow> 'w tcp \<Rightarrow> 'w" where
  "tcp_destroy api s =
     (case s of (transport, w) \<Rightarrow>
      close_socket api (tt_data_socket transport) (close_socket api (tt_listen_socket transport) w))"

definition tcp_ops :: "'w socket_api \<Rightarrow> 'w tcp transport_ops" where
  "tcp_ops api =
     \<lparr>t_discover = tcp_discover, t_connect = tcp_connect api, t_send = tcp_send api,
      t_receive = tcp_receive api, t_receive_into = tcp_receive_into api, t_close = tcp_close api\<rparr>"

section \<open>Descriptor accounting\<close>

declare tcp_send_loop.simps [simp del]

text \<open>The descriptors an object owns, and the invariant that they are open and distinct.\<close>

definition held :: "TcpTransport \<Rightarrow> int set" where
  "held transport = {tt_data_socket transport, tt_listen_socket transport} - {kInvalidSocket}"

definition tcp_inv :: "('w \<Rightarrow> int set) \<Rightarrow> 'w tcp \<Rightarrow> bool" where
  "tcp_inv fds s \<longleftrightarrow> held (fst s) \<subseteq> fds (snd s) \<and>
     (tt_data_socket (fst s) = tt_listen_socket (fst s) \<longrightarrow> tt_data_socket (fst s) = kInvalidSocket)"

text \<open>The descriptors of the world that belong to somebody else.\<close>

definition foreign :: "('w \<Rightarrow> int set) \<Rightarrow> 'w tcp \<Rightarrow> int set" where
  "foreign fds s = fds (snd s) - held (fst s)"

context descriptors
begin

lemma close_socket_fds: "open_fds (close_socket api fd w) = open_fds w - ({fd} - {kInvalidSocket})"
  by (auto simp: close_socket_def close_fd)

lemma tune_socket_fds [simp]: "open_fds (tune_socket api fd endpoint w) = open_fds w"
  by (simp add: tune_socket_def set_socket_buffer_def set_no_delay_def other_fd)

lemma resolve_endpoint_fds: "resolve_endpoint api endpoint passive w = (r, w') \<Longrightarrow> open_fds w' = open_fds w"
  by (auto simp: resolve_endpoint_def Let_def split: prod.splits if_splits dest: other_fd_eq(1))

lemma connect_loop_fds:
  assumes "connect_loop api endpoint addresses w = (r, w')"
  shows "case r of Inl _ \<Rightarrow> open_fds w' = open_fds w
     | Inr fd \<Rightarrow> fd \<noteq> kInvalidSocket \<and> fd \<notin> open_fds w \<and> open_fds w' = insert fd (open_fds w)"
  using assms
proof (induction addresses arbitrary: w)
  case Nil
  then show ?case by auto
next
  case (Cons a as)
  obtain fd w1 where s: "sys_socket api (ai_family a) (ai_socktype a) (ai_protocol a) w = (fd, w1)" by fastforce
  note fd = socket_fd [OF s]
  show ?case
  proof (cases "fd = -1")
    case True
    with Cons s have "connect_loop api endpoint as w1 = (r, w')" by (simp add: kInvalidSocket_def)
    with Cons.IH [OF this] fd True show ?thesis by (auto split: sum.splits)
  next
    case False
    obtain res w2 where c: "sys_connect api fd (ai_addr a) w1 = (res, w2)" by fastforce
    note w2 = other_fd_eq(2) [OF c]
    show ?thesis
    proof (cases "res = 0")
      case True
      with Cons.prems s c False have "r = Inr fd" "w' = tune_socket api fd endpoint w2"
        by (auto simp: kInvalidSocket_def)
      with fd False w2 show ?thesis by (simp add: kInvalidSocket_def)
    next
      case nz: False
      with Cons.prems s c False have l: "connect_loop api endpoint as (close_socket api fd w2) = (r, w')"
        by (simp add: kInvalidSocket_def)
      have "open_fds (close_socket api fd w2) = open_fds w"
        using fd False w2 by (auto simp: close_socket_fds kInvalidSocket_def)
      with Cons.IH [OF l] show ?thesis by (auto split: sum.splits)
    qed
  qed
qed

lemma listen_loop_fds:
  assumes "listen_loop api addresses w = (r, w')"
  shows "case r of Inl _ \<Rightarrow> open_fds w' = open_fds w
     | Inr fd \<Rightarrow> fd \<noteq> kInvalidSocket \<and> fd \<notin> open_fds w \<and> open_fds w' = insert fd (open_fds w)"
  using assms
proof (induction addresses arbitrary: w)
  case Nil
  then show ?case by auto
next
  case (Cons a as)
  obtain fd w1 where s: "sys_socket api (ai_family a) (ai_socktype a) (ai_protocol a) w = (fd, w1)" by fastforce
  note fd = socket_fd [OF s]
  obtain b w2 where b: "sys_bind api fd (ai_addr a) (set_reuse_address api fd w1) = (b, w2)" by fastforce
  obtain l w3 where l: "sys_listen api fd 1 w2 = (l, w3)" by fastforce
  have w2: "open_fds w2 = open_fds w1"
    using other_fd_eq(3) [OF b] by (simp add: set_reuse_address_def other_fd)
  note w3 = other_fd_eq(4) [OF l]
  have released: "open_fds (close_socket api fd w2) = open_fds w" "open_fds (close_socket api fd w3) = open_fds w"
    if "fd \<noteq> -1" using that fd w2 w3 by (auto simp: close_socket_fds kInvalidSocket_def)
  have "listen_loop api (a # as) w =
      (if fd = -1 then listen_loop api as w1
       else if b \<noteq> 0 then listen_loop api as (close_socket api fd w2)
       else if l \<noteq> 0 then listen_loop api as (close_socket api fd w3) else (Inr fd, w3))"
    by (simp add: s b l kInvalidSocket_def)
  with Cons.prems consider "fd = -1" "listen_loop api as w1 = (r, w')"
    | "fd \<noteq> -1" "listen_loop api as (close_socket api fd w2) = (r, w')"
    | "fd \<noteq> -1" "listen_loop api as (close_socket api fd w3) = (r, w')"
    | "fd \<noteq> -1" "r = Inr fd" "w' = w3"
    by (metis prod.inject)
  then show ?case
  proof cases
    case 1
    with Cons.IH [OF 1(2)] fd show ?thesis by (auto split: sum.splits)
  next
    case 2
    with Cons.IH [OF 2(2)] released show ?thesis by (auto split: sum.splits)
  next
    case 3
    with Cons.IH [OF 3(2)] released show ?thesis by (auto split: sum.splits)
  next
    case 4
    with fd w2 w3 show ?thesis by (simp add: kInvalidSocket_def)
  qed
qed

lemma connect_socket_fds:
  assumes "connect_socket api endpoint w = (r, w')"
  shows "case r of Inl _ \<Rightarrow> open_fds w' = open_fds w
     | Inr fd \<Rightarrow> fd \<noteq> kInvalidSocket \<and> fd \<notin> open_fds w \<and> open_fds w' = insert fd (open_fds w)"
proof -
  obtain a w1 where a: "resolve_endpoint api endpoint False w = (a, w1)" by fastforce
  note w1 = resolve_endpoint_fds [OF a]
  show ?thesis
  proof (cases a)
    case (Inl e)
    with assms a w1 show ?thesis by (auto simp: connect_socket_def)
  next
    case (Inr as)
    with assms a have "connect_loop api endpoint as w1 = (r, w')" by (simp add: connect_socket_def)
    from connect_loop_fds [OF this] w1 show ?thesis by (auto split: sum.splits)
  qed
qed

lemma listen_socket_fds:
  assumes "listen_socket api endpoint w = (r, w')"
  shows "case r of Inl _ \<Rightarrow> open_fds w' = open_fds w
     | Inr fd \<Rightarrow> fd \<noteq> kInvalidSocket \<and> fd \<notin> open_fds w \<and> open_fds w' = insert fd (open_fds w)"
proof -
  obtain a w1 where a: "resolve_endpoint api endpoint True w = (a, w1)" by fastforce
  note w1 = resolve_endpoint_fds [OF a]
  show ?thesis
  proof (cases a)
    case (Inl e)
    with assms a w1 show ?thesis by (auto simp: listen_socket_def)
  next
    case (Inr as)
    with assms a have "listen_loop api as w1 = (r, w')" by (simp add: listen_socket_def)
    from listen_loop_fds [OF this] w1 show ?thesis by (auto split: sum.splits)
  qed
qed

text \<open>Replacing an owned descriptor by a fresh one keeps the accounts.\<close>

definition accounts :: "'w tcp \<Rightarrow> 'w tcp \<Rightarrow> bool" where
  "accounts s s' \<longleftrightarrow> (tcp_inv open_fds s \<longrightarrow> tcp_inv open_fds s' \<and> foreign open_fds s' = foreign open_fds s)"

lemma accounts_refl_fds: "open_fds w' = open_fds w \<Longrightarrow> accounts (t, w) (t, w')"
  by (simp add: accounts_def tcp_inv_def foreign_def)

lemma accounts_trans: "accounts a b \<Longrightarrow> accounts b c \<Longrightarrow> accounts a c"
  by (simp add: accounts_def)

lemma accounts_new_data:
  assumes "fd \<noteq> kInvalidSocket" "fd \<notin> open_fds w" "open_fds w1 = insert fd (open_fds w)"
  shows "accounts (t, w) (t\<lparr>tt_data_socket := fd\<rparr>, snd (handle_reset api (tt_data_socket t) fd w1))"
  using assms
  by (auto simp: accounts_def tcp_inv_def foreign_def held_def handle_reset_def close_socket_fds)

lemma accounts_new_listener:
  assumes "fd \<noteq> kInvalidSocket" "fd \<notin> open_fds w" "open_fds w1 = insert fd (open_fds w)"
  shows "accounts (t, w) (t\<lparr>tt_listen_socket := fd\<rparr>, snd (handle_reset api (tt_listen_socket t) fd w1))"
  using assms
  by (auto simp: accounts_def tcp_inv_def foreign_def held_def handle_reset_def close_socket_fds)

lemma tcp_client_connect_accounts:
  assumes "tt_mode t = Client" and "tcp_connect api peer config (t, w) = (r, s')"
  shows "accounts (t, w) s'"
proof -
  obtain c w1 where c: "connect_socket api (tt_endpoint t) w = (c, w1)" by fastforce
  note fds = connect_socket_fds [OF c]
  show ?thesis
  proof (cases c)
    case (Inl e)
    with assms c fds show ?thesis by (auto simp: tcp_connect_def intro: accounts_refl_fds)
  next
    case (Inr fd)
    with assms c have "s' = (t\<lparr>tt_data_socket := fd\<rparr>, snd (handle_reset api (tt_data_socket t) fd w1))"
      by (auto simp: tcp_connect_def handle_reset_def)
    with fds Inr accounts_new_data show ?thesis by simp
  qed
qed

lemma tcp_server_connect_accounts:
  assumes "tt_mode t = Server" and "tcp_connect api peer config (t, w) = (r, s')"
  shows "accounts (t, w) s'"
proof -
  obtain c w1 where c: "listen_socket api (tt_endpoint t) w = (c, w1)" by fastforce
  note fds = listen_socket_fds [OF c]
  show ?thesis
  proof (cases c)
    case (Inl e)
    with assms c fds show ?thesis by (auto simp: tcp_connect_def intro: accounts_refl_fds)
  next
    case (Inr fd)
    define w2 where "w2 = snd (handle_reset api (tt_listen_socket t) fd w1)"
    let ?t = "t\<lparr>tt_listen_socket := fd\<rparr>"
    have l: "accounts (t, w) (?t, w2)"
      using fds Inr accounts_new_listener by (simp add: w2_def)
    have h: "handle_reset api (tt_listen_socket t) fd w1 = (fd, w2)"
      by (simp add: w2_def handle_reset_def)
    obtain a w3 where a: "sys_accept api fd w2 = (a, w3)" by fastforce
    note afd = accept_fd [OF a]
    show ?thesis
    proof (cases "a = -1")
      case True
      with assms c Inr h a have "s' = (?t, w3)" by (auto simp: tcp_connect_def kInvalidSocket_def)
      with l afd True show ?thesis by (auto intro: accounts_trans accounts_refl_fds)
    next
      case False
      let ?w = "tune_socket api a (tt_endpoint t) w3"
      from False assms c Inr h a
      have s': "s' = (?t\<lparr>tt_data_socket := a\<rparr>, snd (handle_reset api (tt_data_socket ?t) a ?w))"
        by (auto simp: tcp_connect_def kInvalidSocket_def handle_reset_def)
      have "accounts (?t, w2) s'"
        unfolding s' by (rule accounts_new_data) (use afd False in \<open>simp_all add: kInvalidSocket_def\<close>)
      with l show ?thesis by (rule accounts_trans)
    qed
  qed
qed

lemma tcp_connect_accounts: "tcp_connect api peer config s = (r, s') \<Longrightarrow> accounts s s'"
  using tcp_client_connect_accounts tcp_server_connect_accounts
  by (cases s; cases "tt_mode (fst s)") auto

lemma tcp_send_loop_fds: "tcp_send_loop api fd payload sent w = (r, w') \<Longrightarrow> open_fds w' = open_fds w"
proof (induction "length payload - sent" arbitrary: sent w rule: less_induct)
  case less
  show ?case
  proof (cases "sent < length payload")
    case True
    let ?data = "take (min (length payload - sent) (1024 * 1024)) (drop sent payload)"
    obtain k w1 where k: "sys_send api fd ?data w = (k, w1)" by fastforce
    note w1 = other_fd_eq(5) [OF k]
    show ?thesis
    proof (cases "k \<le> 0")
      case le: True
      with less.prems True k w1 show ?thesis by (auto simp: tcp_send_loop.simps [of api fd payload sent w] Let_def)
    next
      case False
      with less.prems True k have "tcp_send_loop api fd payload (sent + nat k) w1 = (r, w')"
        by (simp add: tcp_send_loop.simps [of api fd payload sent w] Let_def)
      with less.hyps [of "sent + nat k" w1] True False w1 show ?thesis by simp
    qed
  next
    case False
    with less.prems show ?thesis by (simp add: tcp_send_loop.simps [of api fd payload sent w])
  qed
qed

lemma tcp_send_accounts: "tcp_send api payload s = (r, s') \<Longrightarrow> accounts s s'"
  by (auto simp: tcp_send_def split: prod.splits if_splits intro!: accounts_refl_fds dest: tcp_send_loop_fds)

lemma tcp_receive_into_accounts: "tcp_receive_into api n s = (r, s') \<Longrightarrow> accounts s s'"
  by (auto simp: tcp_receive_into_def split: prod.splits if_splits intro!: accounts_refl_fds dest: other_fd_eq(6))

lemma tcp_close_accounts: "accounts s (tcp_close api s)"
  by (auto simp: accounts_def tcp_inv_def foreign_def held_def tcp_close_def handle_reset_def close_socket_fds
      split: prod.splits)

lemma tcp_close_releases: "tcp_inv open_fds s \<Longrightarrow> held (fst (tcp_close api s)) = {}"
  by (simp add: held_def tcp_close_def handle_reset_def split: prod.splits)

lemma tcp_destroy_releases: "tcp_inv open_fds s \<Longrightarrow> open_fds (tcp_destroy api s) = foreign open_fds s"
  by (auto simp: tcp_inv_def foreign_def held_def tcp_destroy_def close_socket_fds split: prod.splits)

end

section \<open>The stream contract\<close>

context stream_sockets
begin

lemma tcp_send_loop_stream:
  assumes "tcp_send_loop api fd payload sent w = (Inr k, w')" and "sent \<le> length payload"
  shows "k = length payload \<and> outbox w' fd = outbox w fd @ drop sent payload \<and> inbox w' fd = inbox w fd"
  using assms
proof (induction "length payload - sent" arbitrary: sent w rule: less_induct)
  case less
  show ?case
  proof (cases "sent < length payload")
    case True
    define data where "data = take (min (length payload - sent) (1024 * 1024)) (drop sent payload)"
    obtain r w1 where r: "sys_send api fd data w = (r, w1)" by fastforce
    note law = send_law [OF r]
    from less.prems True r have pos: "0 < r" and
      rec: "tcp_send_loop api fd payload (sent + nat r) w1 = (Inr k, w')"
      by (auto simp: tcp_send_loop.simps [of api fd payload sent w] Let_def data_def split: if_splits)
    have le: "nat r \<le> length data" using law pos by linarith
    then have "nat r \<le> length payload - sent" by (simp add: data_def)
    with True have bound: "sent + nat r \<le> length payload" by linarith
    have IH: "k = length payload \<and> outbox w' fd = outbox w1 fd @ drop (sent + nat r) payload \<and> inbox w' fd = inbox w1 fd"
      by (rule less.hyps [OF _ rec bound]) (use True pos in simp)
    have "take (nat r) data = take (nat r) (drop sent payload)"
      using le by (simp add: data_def min_def split: if_splits)
    moreover have "drop (sent + nat r) payload = drop (nat r) (drop sent payload)" by (simp add: add.commute)
    ultimately have "outbox w1 fd @ drop (sent + nat r) payload = outbox w fd @ drop sent payload"
      using law by (metis append.assoc append_take_drop_id)
    with IH law show ?thesis by simp
  next
    case False
    with less.prems show ?thesis by (simp add: tcp_send_loop.simps [of api fd payload sent w])
  qed
qed

definition tcp_sent :: "'w tcp \<Rightarrow> byte list" where
  "tcp_sent s = outbox (snd s) (tt_data_socket (fst s))"

definition tcp_pending :: "'w tcp \<Rightarrow> byte list" where
  "tcp_pending s = inbox (snd s) (tt_data_socket (fst s))"

lemma tcp_send_stream:
  "tcp_send api payload s = (Inr k, s') \<Longrightarrow>
     k = length payload \<and> tcp_sent s' = tcp_sent s @ payload \<and> tcp_pending s' = tcp_pending s"
  by (auto simp: tcp_send_def tcp_sent_def tcp_pending_def split: prod.splits if_splits
      dest!: tcp_send_loop_stream)

lemma tcp_receive_into_stream:
  assumes "tcp_receive_into api n s = (Inr bs, s')"
  shows "length bs \<le> n \<and> tcp_pending s = bs @ tcp_pending s' \<and> tcp_sent s' = tcp_sent s \<and>
         (bs = [] \<longrightarrow> n = 0 \<or> tcp_pending s = [])"
proof -
  obtain t w where s: "s = (t, w)" by fastforce
  obtain r data w1 where r: "sys_recv api (tt_data_socket t) n w = ((r, data), w1)" by (metis surj_pair)
  from assms s r have "0 \<le> r" "bs = take (nat r) data" "s' = (t, w1)"
    by (auto simp: tcp_receive_into_def split: if_splits)
  with recv_law [OF r] s show ?thesis by (auto simp: tcp_pending_def tcp_sent_def)
qed

lemma accounting_contract:
  "transport_contract (tcp_ops api) (\<lambda>s. tcp_inv open_fds s \<and> foreign open_fds s = F)"
proof unfold_locales
  fix s :: "'w tcp"
  assume inv: "tcp_inv open_fds s \<and> foreign open_fds s = F"
  then have keep: "tcp_inv open_fds s' \<and> foreign open_fds s' = F" if "accounts s s'" for s'
    using that by (simp add: accounts_def)
  show "tcp_inv open_fds (snd (t_discover (tcp_ops api) options s)) \<and>
      foreign open_fds (snd (t_discover (tcp_ops api) options s)) = F" for options
    using inv by (simp add: tcp_ops_def tcp_discover_def Let_def)
  show "tcp_inv open_fds (snd (t_connect (tcp_ops api) peer config s)) \<and>
      foreign open_fds (snd (t_connect (tcp_ops api) peer config s)) = F" for peer config
    by (rule keep, rule tcp_connect_accounts) (simp add: tcp_ops_def, rule surjective_pairing)
  show "tcp_inv open_fds (snd (t_send (tcp_ops api) payload s)) \<and>
      foreign open_fds (snd (t_send (tcp_ops api) payload s)) = F" for payload
    by (rule keep, rule tcp_send_accounts) (simp add: tcp_ops_def, rule surjective_pairing)
  show "tcp_inv open_fds (snd (t_receive (tcp_ops api) n s)) \<and>
      foreign open_fds (snd (t_receive (tcp_ops api) n s)) = F" for n
    by (rule keep, rule tcp_receive_into_accounts) (simp add: tcp_ops_def tcp_receive_def, rule surjective_pairing)
  show "tcp_inv open_fds (snd (t_receive_into (tcp_ops api) n s)) \<and>
      foreign open_fds (snd (t_receive_into (tcp_ops api) n s)) = F" for n
    by (rule keep, rule tcp_receive_into_accounts) (simp add: tcp_ops_def, rule surjective_pairing)
  show "tcp_inv open_fds (t_close (tcp_ops api) s) \<and> foreign open_fds (t_close (tcp_ops api) s) = F"
    by (rule keep) (simp add: tcp_ops_def tcp_close_accounts)
qed (auto simp: tcp_ops_def tcp_receive_def dest: tcp_send_stream tcp_receive_into_stream)

end

sublocale stream_sockets \<subseteq> tcp: stream_transport "tcp_ops api" "tcp_inv open_fds" tcp_sent tcp_pending
proof unfold_locales
  fix s :: "'w tcp"
  assume inv: "tcp_inv open_fds s"
  note acc = accounting_contract [of "foreign open_fds s"]
  show "tcp_inv open_fds (snd (t_discover (tcp_ops api) options s))" for options
    using transport_contract.discover_invar [OF acc, of s] inv by blast
  show "tcp_inv open_fds (snd (t_connect (tcp_ops api) peer config s))" for peer config
    using transport_contract.connect_invar [OF acc, of s] inv by blast
  show "tcp_inv open_fds (snd (t_send (tcp_ops api) payload s))" for payload
    using transport_contract.send_invar [OF acc, of s] inv by blast
  show "tcp_inv open_fds (snd (t_receive (tcp_ops api) n s))" for n
    using transport_contract.receive_invar [OF acc, of s] inv by blast
  show "tcp_inv open_fds (snd (t_receive_into (tcp_ops api) n s))" for n
    using transport_contract.receive_into_invar [OF acc, of s] inv by blast
  show "tcp_inv open_fds (t_close (tcp_ops api) s)"
    using transport_contract.close_invar [OF acc, of s] inv by blast
qed (auto simp: tcp_ops_def tcp_receive_def dest: tcp_send_stream tcp_receive_into_stream)

section \<open>Reliable connections\<close>

context healthy_sockets
begin

lemma tcp_send_loop_healthy:
  assumes "healthy w fd"
  shows "\<exists>k w'. tcp_send_loop api fd payload sent w = (Inr k, w') \<and> healthy w' fd"
  using assms
proof (induction "length payload - sent" arbitrary: sent w rule: less_induct)
  case less
  show ?case
  proof (cases "sent < length payload")
    case True
    define data where "data = take (min (length payload - sent) (1024 * 1024)) (drop sent payload)"
    obtain r w1 where r: "sys_send api fd data w = (r, w1)" by fastforce
    have "data \<noteq> []" using True by (simp add: data_def)
    with send_healthy [OF less.prems this] r have "0 < r" "healthy w1 fd" by auto
    with less.hyps [of "sent + nat r" w1] True r show ?thesis
      by (simp add: tcp_send_loop.simps [of api fd payload sent w] Let_def data_def)
  next
    case False
    with less.prems show ?thesis by (simp add: tcp_send_loop.simps [of api fd payload sent w])
  qed
qed

definition tcp_good :: "'w tcp \<Rightarrow> bool" where
  "tcp_good s \<longleftrightarrow> tcp_inv open_fds s \<and> tt_data_socket (fst s) \<noteq> kInvalidSocket \<and>
     healthy (snd s) (tt_data_socket (fst s))"

end

sublocale healthy_sockets \<subseteq> tcp_up: reliable_stream "tcp_ops api" "tcp_inv open_fds" tcp_sent tcp_pending tcp_good
proof unfold_locales
  fix s :: "'w tcp"
  assume good: "tcp_good s"
  obtain t w where s: "s = (t, w)" by fastforce
  show "tcp_inv open_fds s" using good by (simp add: tcp_good_def)
  show "\<exists>k s'. t_send (tcp_ops api) payload s = (Inr k, s') \<and> tcp_good s'" for payload
  proof -
    from good s tcp_send_loop_healthy [of w "tt_data_socket t" payload 0] obtain k w'
      where k: "tcp_send_loop api (tt_data_socket t) payload 0 w = (Inr k, w')" "healthy w' (tt_data_socket t)"
      by (auto simp: tcp_good_def)
    with good s have e: "tcp_send api payload s = (Inr k, (t, w'))" by (simp add: tcp_send_def tcp_good_def)
    with tcp_send_accounts [OF e] good k s show ?thesis by (simp add: tcp_ops_def tcp_good_def accounts_def)
  qed
  show "\<exists>bs s'. t_receive_into (tcp_ops api) n s = (Inr bs, s') \<and> tcp_good s'" for n
  proof -
    obtain r data w' where r: "sys_recv api (tt_data_socket t) n w = ((r, data), w')" by (metis surj_pair)
    with recv_healthy [of w "tt_data_socket t" n] good s have "0 \<le> r" "healthy w' (tt_data_socket t)"
      by (auto simp: tcp_good_def)
    with r good s have e: "tcp_receive_into api n s = (Inr (take (nat r) data), (t, w'))"
      by (simp add: tcp_receive_into_def tcp_good_def)
    with tcp_receive_into_accounts [OF e] good s \<open>healthy w' _\<close> show ?thesis
      by (simp add: tcp_ops_def tcp_good_def accounts_def)
  qed
qed

section \<open>Properties of the transport\<close>

lemma fresh_transport_inv:
  "tcp_inv fds (make_tcp_client_transport endpoint, w)" "tcp_inv fds (make_tcp_server_transport endpoint, w)"
  "foreign fds (make_tcp_client_transport endpoint, w) = fds w"
  "foreign fds (make_tcp_server_transport endpoint, w) = fds w"
  by (simp_all add: tcp_inv_def foreign_def held_def make_tcp_client_transport_def make_tcp_server_transport_def)

text \<open>
  C23. No descriptor leaks. Take a new client or server transport, give it to a session, run any
  sequence of session calls, whatever the system calls return, then destroy the session:
  exactly the descriptors that were open before are open again, and no foreign
  descriptor was closed. While the session lives, it owns only open descriptors.
\<close>

theorem tcp_session_leaks_no_descriptor:
  assumes "stream_sockets api open_fds outbox inbox"
    and "transport = make_tcp_client_transport endpoint \<or> transport = make_tcp_server_transport endpoint"
    and "session_new (Some (transport, w)) = Inr s"
    and "session_run (tcp_ops api) program s = (null, s')"
    and "session_destroy (tcp_ops api) s' = Some final"
  shows "open_fds (tcp_destroy api final) = open_fds w \<and>
    (\<exists>now. s_transport s' = Some now \<and> held (fst now) \<subseteq> open_fds (snd now) \<and>
           open_fds (snd now) - held (fst now) = open_fds w)"
proof -
  note C = stream_sockets.accounting_contract [OF assms(1), of "open_fds w"]
  have D: "descriptors api open_fds" using assms(1) by (simp add: stream_sockets_def)
  have "transport_contract.session_invar (\<lambda>t. tcp_inv open_fds t \<and> foreign open_fds t = open_fds w) s"
    using assms(2,3) fresh_transport_inv [of open_fds endpoint w]
    by (auto simp: transport_contract.session_invar_def [OF C] session_new_def)
  from transport_contract.session_run_invar [OF C this, of program] assms(4)
  have inv: "\<forall>t. s_transport s' = Some t \<longrightarrow> tcp_inv open_fds t \<and> foreign open_fds t = open_fds w"
    by (simp add: transport_contract.session_invar_def [OF C])
  from assms(5) obtain now where now: "s_transport s' = Some now"
    "final = (if s_connected s' then tcp_close api now else now)"
    by (auto simp: session_destroy_def session_close_def tcp_ops_def split: option.splits if_splits)
  with inv have n: "tcp_inv open_fds now" "foreign open_fds now = open_fds w" by auto
  have "tcp_inv open_fds final \<and> foreign open_fds final = open_fds w"
    using n now descriptors.tcp_close_accounts [OF D, of now] by (simp add: descriptors.accounts_def [OF D])
  then have "open_fds (tcp_destroy api final) = open_fds w"
    using descriptors.tcp_destroy_releases [OF D, of final] by simp
  with now n show ?thesis by (auto simp: tcp_inv_def foreign_def)
qed

theorem tcp_session_leaks_no_descriptor_witness:
  "\<exists>s null s' final.
     session_new (Some (make_tcp_server_transport default_endpoint, mem_start)) = Inr s \<and>
     session_run (tcp_ops mem_api) [Op_connect any_peer default_options default_options ''x'',
       Op_connect any_peer default_options default_options ''y'', Op_send [1, 2]] s = (null, s') \<and>
     session_destroy (tcp_ops mem_api) s' = Some final \<and>
     mw_open (tcp_destroy mem_api final) = {0, 1, 2}"
proof -
  let ?t = "make_tcp_server_transport default_endpoint"
  let ?p = "[Op_connect any_peer default_options default_options ''x'',
       Op_connect any_peer default_options default_options ''y'', Op_send [1, 2]]"
  obtain s where s: "session_new (Some (?t, mem_start)) = Inr s" by (simp add: session_new_def)
  obtain null s' where r: "session_run (tcp_ops mem_api) ?p s = (null, s')" by fastforce
  have "\<exists>final. session_destroy (tcp_ops mem_api) s' = Some final"
    using s r by (auto simp: session_new_def session_destroy_def session_op_defs bindE_def via_transport_def
        split: option.splits prod.splits sum.splits if_splits)
  then obtain final where l: "session_destroy (tcp_ops mem_api) s' = Some final" by blast
  have "mw_open (tcp_destroy mem_api final) = mw_open mem_start"
    using tcp_session_leaks_no_descriptor [OF mem.stream_sockets_axioms _ s r l] by blast
  then have "mw_open (tcp_destroy mem_api final) = {0, 1, 2}" by (simp add: mem_start_def)
  with s r l show ?thesis by blast
qed

text \<open>
  C24. A send delivers everything. However the system splits it up, a TCP send on a connection that
  stays up returns the payload's length, and what the peer will read is extended by
  exactly the payload; if the connection fails, the call throws instead of returning a
  partial count.
\<close>

theorem tcp_send_delivers_all:
  assumes "healthy_sockets api open_fds outbox inbox healthy"
    and "tt_data_socket transport \<noteq> -1" and "healthy w (tt_data_socket transport)"
  shows "\<exists>w'. tcp_send api payload (transport, w) = (Inr (length payload), (transport, w')) \<and>
     outbox w' (tt_data_socket transport) = outbox w (tt_data_socket transport) @ payload \<and>
     inbox w' (tt_data_socket transport) = inbox w (tt_data_socket transport)"
proof -
  let ?fd = "tt_data_socket transport"
  from healthy_sockets.tcp_send_loop_healthy [OF assms(1,3), of payload 0] obtain k w'
    where k: "tcp_send_loop api ?fd payload 0 w = (Inr k, w')" by blast
  have "stream_sockets api open_fds outbox inbox" using assms(1) by (simp add: healthy_sockets_def)
  from stream_sockets.tcp_send_loop_stream [OF this k] k assms(2) show ?thesis
    by (simp add: tcp_send_def kInvalidSocket_def)
qed

theorem tcp_send_delivers_all_witness:
  "\<exists>w'. tcp_send mem_api [1, 2, 3, 4, 5, 6, 7] ((make_tcp_client_transport default_endpoint)\<lparr>tt_data_socket := 3\<rparr>,
          mem_start) = (Inr 7, ((make_tcp_client_transport default_endpoint)\<lparr>tt_data_socket := 3\<rparr>, w')) \<and>
        mw_out w' 3 = [1, 2, 3, 4, 5, 6, 7]"
  using tcp_send_delivers_all [OF mem.healthy_sockets_axioms,
      where transport = "(make_tcp_client_transport default_endpoint)\<lparr>tt_data_socket := 3\<rparr>"
        and w = mem_start and payload = "[1, 2, 3, 4, 5, 6, 7]"]
  by (auto simp: mem_start_def eval_nat_numeral)

text \<open>
  C25. Socket buffer sizes. A zero request leaves the socket alone; any other 32-bit request is passed
  on as a positive \<^verbatim>\<open>int\<close> of at most one gibibyte, never as a negative number.
\<close>

theorem set_socket_buffer_bounds:
  "\<exists>value. set_socket_buffer api socket option bytes w =
     (if bytes = 0 then w else sys_setsockopt api socket option value w) \<and>
     (bytes = 0 \<or> (0 < value \<and> value \<le> 1073741824 \<and> value = min (uint bytes) 1073741824))"
proof (intro exI conjI)
  let ?v = "min (uint bytes) 1073741824"
  have "uint (min bytes 1073741824) = ?v" by (simp add: min_def word_le_def)
  moreover have "take_bit 31 ?v = ?v" by (rule take_bit_int_eq_self) auto
  ultimately have "sint (min bytes (1073741824 :: u32)) = uint (min bytes (1073741824 :: u32))"
    by (simp add: sint_uint signed_take_bit_eq_if_positive bit_iff_odd_drop_bit drop_bit_eq_div
        signed_take_bit_int_eq_self)
  moreover have "uint (min bytes 1073741824) = ?v" by (simp add: min_def word_le_def)
  ultimately have "sint (min bytes (1073741824 :: u32)) = ?v" by simp
  then show "set_socket_buffer api socket option bytes w =
     (if bytes = 0 then w else sys_setsockopt api socket option ?v w)"
    by (simp add: set_socket_buffer_def)
  show "bytes = 0 \<or> (0 < ?v \<and> ?v \<le> 1073741824 \<and> ?v = min (uint bytes) 1073741824)"
    using uint_0_iff [of bytes] uint_ge_0 [of bytes] by (auto simp: order_less_le)
qed

end
