(* ===== verification/Path_Safety.thy ===== *)
theory Path_Safety
  imports Hyperlink_Prelude
begin

text \<open>
  File names of the file-transfer tool (\<^verbatim>\<open>examples/file_transfer.cpp\<close>): the parts of
  \<^verbatim>\<open>std::filesystem::path\<close> it uses, with the POSIX separator, the checks of incoming names,
  and the quoting of the shell commands. An accepted name is shown to stay inside the
  output directory, and a quoted one to reach the command as a single word. Path
  operations are lexical and on whole C++ strings: what a symbolic link on the way would do
  is not part of them, and a system call sees a name only up to its first NUL byte (the
  lemmas on \<open>c_path\<close> say when that matters).
\<close>

section \<open>std::filesystem::path\<close>

text \<open>\<^verbatim>\<open>filename()\<close>: what follows the last separator.\<close>

definition filename :: "string \<Rightarrow> string" where
  "filename path = rev (takeWhile (\<lambda>c. c \<noteq> CHR ''/'') (rev path))"

text \<open>
  \<^verbatim>\<open>parent_path()\<close>: without the filename and the separators before it; a path that is only
  separators is its own parent, and one directly below the root has the root as parent.
\<close>

definition parent_path :: "string \<Rightarrow> string" where
  "parent_path path =
     (if \<forall>c \<in> set path. c = CHR ''/'' then path
      else let dir = take (length path - length (filename path)) path;
               stripped = rev (dropWhile (\<lambda>c. c = CHR ''/'') (rev dir))
           in if stripped = [] \<and> dir \<noteq> [] then ''/'' else stripped)"

fun split_slash :: "string \<Rightarrow> string list" where
  "split_slash [] = [[]]"
| "split_slash (c # cs) =
     (if c = CHR ''/'' then [] # split_slash cs
      else case split_slash cs of [] \<Rightarrow> [[c]] | p # ps \<Rightarrow> (c # p) # ps)"

definition is_absolute :: "string \<Rightarrow> bool" where
  "is_absolute path \<longleftrightarrow> starts_with ''/'' path"

text \<open>
  The elements of \<^verbatim>\<open>begin()..end()\<close>: the root directory of an absolute path, the file names, and
  an empty element for a separator that ends the path after a file name.
\<close>

definition path_elements :: "string \<Rightarrow> string list" where
  "path_elements path =
     (let names = filter (\<lambda>p. p \<noteq> []) (split_slash path) in
      (if is_absolute path then [''/''] else []) @ names @
      (if names \<noteq> [] \<and> last (split_slash path) = [] then [[]] else []))"

text \<open>\<^verbatim>\<open>operator/\<close> with a relative right-hand side; an absolute one replaces the left.\<close>

definition join_path :: "string \<Rightarrow> string \<Rightarrow> string" where
  "join_path dir path =
     (if is_absolute path then path
      else if dir = [] \<or> last dir = CHR ''/'' then dir @ path
      else dir @ ''/'' @ path)"

text \<open>
  \<^verbatim>\<open>lexically_relative\<close> as the standard defines it: the elements after the common beginning,
  preceded by one double dot for every element of the base that is left.
\<close>

fun strip_common :: "string list \<Rightarrow> string list \<Rightarrow> string list \<times> string list" where
  "strip_common (a # as) (b # bs) = (if a = b then strip_common as bs else (a # as, b # bs))"
| "strip_common as bs = (as, bs)"

definition climbs :: "string list \<Rightarrow> int" where
  "climbs names = sum_list (map (\<lambda>p. if p = ''..'' then -1 else if p = ''.'' \<or> p = [] then 0 else 1) names)"

definition lexically_relative :: "string \<Rightarrow> string \<Rightarrow> string" where
  "lexically_relative path base =
     (if is_absolute path \<noteq> is_absolute base then []
      else case strip_common (path_elements path) (path_elements base) of (a, b) \<Rightarrow>
        if a = [] \<and> b = [] then ''.''
        else if climbs b < 0 then []
        else if climbs b = 0 \<and> (a = [] \<or> hd a = []) then ''.''
        else foldl join_path [] (replicate (nat (climbs b)) ''..'' @ a))"

section \<open>Incoming names\<close>

definition safe_file_name :: "string \<Rightarrow> string result" where
  "safe_file_name name =
     (let path = filename name in
      if path = [] \<or> path = ''.'' \<or> path = ''..''
      then Inl (Runtime_error ''invalid incoming file name'') else Inr path)"

definition safe_relative_path :: "string \<Rightarrow> string result" where
  "safe_relative_path name =
     (if name = [] \<or> is_absolute name then Inl (Runtime_error ''invalid incoming relative path'')
      else if \<exists>part \<in> set (path_elements name). part = ''.'' \<or> part = ''..'' \<or> part = []
      then Inl (Runtime_error ''invalid incoming relative path'')
      else Inr name)"

section \<open>Shell commands\<close>

fun quote_char :: "char \<Rightarrow> string" where
  "quote_char c = (if c = CHR 0x27 then [CHR 0x27, CHR 0x5C, CHR 0x27, CHR 0x27] else [c])"

definition shell_quote :: "string \<Rightarrow> string" where
  "shell_quote path = [CHR 0x27] @ concat (map quote_char path) @ [CHR 0x27]"

definition tar_create_command :: "string \<Rightarrow> string" where
  "tar_create_command directory =
     (let parent = (if parent_path directory = [] then ''.'' else parent_path directory)
      in ''tar -cf - -C '' @ shell_quote parent @ '' '' @ shell_quote (filename directory))"

definition tar_extract_command :: "string \<Rightarrow> string" where
  "tar_extract_command output_dir = ''tar -xf - -C '' @ shell_quote output_dir"

section \<open>Where a path leads\<close>

text \<open>
  The directory stack a path denotes below a starting directory, read lexically: a name
  descends, \<^verbatim>\<open>..\<close> ascends, \<^verbatim>\<open>.\<close> and empty components stay.
\<close>

fun walk :: "string list \<Rightarrow> string list \<Rightarrow> string list" where
  "walk dir [] = dir"
| "walk dir (p # ps) =
     walk (if p = [] \<or> p = ''.'' then dir else if p = ''..'' then butlast dir else dir @ [p]) ps"

definition denotes :: "string list \<Rightarrow> string \<Rightarrow> string list" where
  "denotes dir path = walk (if is_absolute path then [] else dir) (split_slash path)"

lemma walk_plain:
  "\<forall>p \<in> set ps. p \<noteq> ''.'' \<and> p \<noteq> ''..'' \<Longrightarrow> walk dir ps = dir @ filter (\<lambda>p. p \<noteq> []) ps"
  by (induction ps arbitrary: dir) auto

lemma split_slash_no_slash: "CHR ''/'' \<notin> set s \<Longrightarrow> split_slash s = [s]"
  by (induction s) auto

lemma split_slash_not_Nil [simp]: "split_slash s \<noteq> []"
  by (induction s) (auto split: list.splits)

lemma split_slash_parts: "p \<in> set (split_slash s) \<Longrightarrow> CHR ''/'' \<notin> set p"
  by (induction s arbitrary: p) (auto split: list.splits if_splits)

lemma split_slash_nonempty: "s \<noteq> [] \<Longrightarrow> \<not> is_absolute s \<Longrightarrow> \<exists>p \<in> set (split_slash s). p \<noteq> []"
  by (cases s) (auto simp: is_absolute_def starts_with_def split: list.splits)

lemma filename_no_slash: "CHR ''/'' \<notin> set (filename path)"
  by (auto simp: filename_def dest: set_takeWhileD)

lemma filename_id: "CHR ''/'' \<notin> set path \<Longrightarrow> filename path = path"
proof -
  assume "CHR ''/'' \<notin> set path"
  then have "takeWhile (\<lambda>c. c \<noteq> CHR ''/'') (rev path) = rev path" by (auto simp: takeWhile_eq_all_conv)
  then show ?thesis unfolding filename_def by (simp only: rev_rev_ident)
qed

lemma no_slash_not_absolute: "CHR ''/'' \<notin> set path \<Longrightarrow> \<not> is_absolute path"
  by (cases path) (auto simp: is_absolute_def starts_with_def)

lemma filename_idem [simp]: "filename (filename path) = filename path"
  by (simp add: filename_id filename_no_slash)

text \<open>
  C34. An accepted relative path stays inside. If an incoming relative path is accepted, then it is
  used unchanged, and below whatever output directory it denotes a place strictly inside
  that directory: the directory's own components followed by at least one name, none of
  them a dot, a double dot or a name with a separator. The path is the C++ string; the
  system calls made with it see all of it when it has no NUL byte.
\<close>

theorem safe_relative_path_inside:
  assumes "safe_relative_path name = Inr path"
  shows "path = name \<and>
    (\<exists>names. names \<noteq> [] \<and> denotes dir path = dir @ names \<and>
       (\<forall>p \<in> set names. p \<noteq> [] \<and> p \<noteq> ''.'' \<and> p \<noteq> ''..'' \<and> CHR ''/'' \<notin> set p))"
proof -
  let ?bad = "\<lambda>p. p = ''.'' \<or> p = ''..'' \<or> p = []"
  let ?names = "filter (\<lambda>p. p \<noteq> []) (split_slash name)"
  have n: "path = name" "name \<noteq> []" "\<not> is_absolute name" "\<not> (\<exists>p \<in> set (path_elements name). ?bad p)"
    using assms by (simp_all add: safe_relative_path_def split: if_split_asm)
  have "set ?names \<subseteq> set (path_elements name)" by (auto simp: path_elements_def Let_def)
  with n(4) have good: "\<not> ?bad p" if "p \<in> set ?names" for p using that by blast
  then have "\<forall>p \<in> set (split_slash name). p \<noteq> ''.'' \<and> p \<noteq> ''..''" by auto
  from walk_plain [OF this, of dir] have "denotes dir path = dir @ ?names" using n(1,3) by (simp add: denotes_def)
  moreover have "?names \<noteq> []" using split_slash_nonempty [OF n(2,3)] by (auto simp: filter_empty_conv)
  moreover have "p \<noteq> [] \<and> p \<noteq> ''.'' \<and> p \<noteq> ''..'' \<and> CHR ''/'' \<notin> set p" if "p \<in> set ?names" for p
    using good [OF that] split_slash_parts [of p name] that by simp
  ultimately show ?thesis using n(1) by blast
qed

theorem safe_relative_path_inside_witness:
  "safe_relative_path ''photos/2026/a.jpg'' = Inr ''photos/2026/a.jpg'' \<and>
   denotes [''out''] ''photos/2026/a.jpg'' = [''out'', ''photos'', ''2026'', ''a.jpg''] \<and>
   safe_relative_path ''a/../../b'' = Inl (Runtime_error ''invalid incoming relative path'')"
proof -
  have s: "safe_relative_path ''photos/2026/a.jpg'' = Inr ''photos/2026/a.jpg''"
    by (simp add: safe_relative_path_def path_elements_def is_absolute_def starts_with_def)
  from safe_relative_path_inside [OF s, of "[''out'']"]
  have "denotes [''out''] ''photos/2026/a.jpg'' = [''out'', ''photos'', ''2026'', ''a.jpg'']"
    by (auto simp: denotes_def is_absolute_def starts_with_def)
  with s show ?thesis by (simp add: safe_relative_path_def path_elements_def is_absolute_def starts_with_def)
qed

text \<open>
  C35. File names. What the check accepts is what follows the last separator of the incoming name;
  it is a single proper name and denotes an entry of the output directory itself. It
  passes the check unchanged, so the name the sender sends is the one the receiver uses.
  As above, the name is the C++ string, of which system calls see what precedes a NUL byte.
\<close>

theorem safe_file_name_inside:
  assumes "safe_file_name name = Inr file"
  shows "(\<exists>front. name = front @ file \<and> (front = [] \<or> last front = CHR ''/'')) \<and>
    file \<noteq> [] \<and> CHR ''/'' \<notin> set file \<and> denotes dir file = dir @ [file] \<and> safe_file_name file = Inr file"
proof -
  have f: "file = filename name" "file \<noteq> []" "file \<noteq> ''.''" "file \<noteq> ''..''"
    using assms by (simp_all add: safe_file_name_def Let_def split: if_split_asm)
  have slash: "CHR ''/'' \<notin> set file" using f(1) filename_no_slash by simp
  then have abs: "\<not> is_absolute file" by (rule no_slash_not_absolute)
  define front where "front = rev (dropWhile (\<lambda>c. c \<noteq> CHR ''/'') (rev name))"
  have "rev name = rev file @ rev front" by (simp add: f(1) filename_def front_def)
  then have "name = front @ file" using rev_rev_ident [of name] by (metis rev_append rev_rev_ident)
  moreover have "front = [] \<or> last front = CHR ''/''"
    using hd_dropWhile [of "\<lambda>c. c \<noteq> CHR ''/''" "rev name"] by (auto simp: front_def last_rev)
  moreover have "denotes dir file = dir @ [file]"
    using f slash abs by (simp add: denotes_def split_slash_no_slash)
  moreover have "safe_file_name file = Inr file"
    using f slash by (simp add: safe_file_name_def filename_id)
  ultimately show ?thesis using f(2) slash by blast
qed

theorem safe_file_name_inside_witness:
  "safe_file_name ''../../etc/passwd'' = Inr ''passwd'' \<and> denotes [''out''] ''passwd'' = [''out'', ''passwd''] \<and>
   safe_file_name ''photos/'' = Inl (Runtime_error ''invalid incoming file name'')"
proof -
  have s: "safe_file_name ''../../etc/passwd'' = Inr ''passwd''" by (simp add: safe_file_name_def filename_def)
  with safe_file_name_inside [OF s, of "[''out'']"] show ?thesis by (simp add: safe_file_name_def filename_def)
qed

section \<open>NUL bytes\<close>

text \<open>
  What a system call is given of a path: the C string. Names come from the peer with any
  bytes. Without a NUL byte the two agree, so an accepted relative path stays inside for the
  system too. With one, a component that is not a double dot for the check can be one for
  the system, and an accepted path then leads out of the output directory.
\<close>

definition c_path :: "string \<Rightarrow> string" where
  "c_path path = takeWhile (\<lambda>c. c \<noteq> CHR 0x00) path"

lemma c_path_id: "CHR 0x00 \<notin> set path \<Longrightarrow> c_path path = path"
  by (auto simp: c_path_def takeWhile_eq_all_conv)

lemma nul_byte_hides_double_dot:
  "safe_relative_path (''..'' @ [CHR 0x00]) = Inr (''..'' @ [CHR 0x00])"
  "safe_file_name (''..'' @ [CHR 0x00]) = Inr (''..'' @ [CHR 0x00])"
  "denotes dir (c_path (''..'' @ [CHR 0x00])) = butlast dir"
  by (simp_all add: safe_relative_path_def safe_file_name_def filename_def path_elements_def is_absolute_def
      starts_with_def denotes_def c_path_def)

section \<open>What the shell makes of a command\<close>

text \<open>
  Word splitting as POSIX specifies it for blanks, single quotes and backslashes; any
  character with another meaning to the shell outside quotes gives \<open>None\<close>, as does an
  unfinished quotation: the reader is conservative, it never guesses what such a command
  would do. The first argument is the word being read.
\<close>

definition sh_special :: "char \<Rightarrow> bool" where
  "sh_special c \<longleftrightarrow> c \<in> set ''|&;<>()$`*?[]#~=%!{}'' \<or> c = CHR 0x22 \<or> c = CHR 0x0A \<or> c = CHR 0x09"

definition sh_add :: "string option \<Rightarrow> string \<Rightarrow> string" where
  "sh_add current text = (case current of None \<Rightarrow> text | Some word \<Rightarrow> word @ text)"

fun sh_words :: "string option \<Rightarrow> string \<Rightarrow> string list option"
  and sh_quoted :: "string \<Rightarrow> string \<Rightarrow> string list option" where
  "sh_words current [] = Some (case current of None \<Rightarrow> [] | Some word \<Rightarrow> [word])"
| "sh_words current (c # cs) =
     (if c = CHR '' '' then map_option (\<lambda>words. (case current of None \<Rightarrow> words | Some word \<Rightarrow> word # words)) (sh_words None cs)
      else if c = CHR 0x27 then sh_quoted (sh_add current []) cs
      else if c = CHR 0x5C then (case cs of [] \<Rightarrow> None | d # ds \<Rightarrow> sh_words (Some (sh_add current [d])) ds)
      else if sh_special c then None
      else sh_words (Some (sh_add current [c])) cs)"
| "sh_quoted word [] = None"
| "sh_quoted word (c # cs) =
     (if c = CHR 0x27 then sh_words (Some word) cs else sh_quoted (word @ [c]) cs)"

lemma sh_quoted_quote:
  "sh_quoted word (concat (map quote_char path) @ CHR 0x27 # rest) = sh_words (Some (word @ path)) rest"
  by (induction path arbitrary: word) (simp_all add: sh_add_def)

lemma sh_words_shell_quote: "sh_words None (shell_quote path @ rest) = sh_words (Some path) rest"
  by (simp add: shell_quote_def sh_add_def sh_quoted_quote)

text \<open>
  C36. No shell injection. Whatever bytes the path of a directory consists of, quotes, blanks and
  shell operators included, the shell splits the archive commands into exactly the
  intended words: the fixed ones, the parent directory and the directory's name, and the
  output directory.
\<close>

theorem tar_commands_words:
  "sh_words None (tar_create_command directory) =
     Some [''tar'', ''-cf'', ''-'', ''-C'', if parent_path directory = [] then ''.'' else parent_path directory,
           filename directory] \<and>
   sh_words None (tar_extract_command output_dir) = Some [''tar'', ''-xf'', ''-'', ''-C'', output_dir]"
proof -
  have quoted: "sh_words None (shell_quote a @ '' '' @ shell_quote b) = Some [a, b]" for a b
    using sh_words_shell_quote [of b "[]"] by (simp add: sh_words_shell_quote)
  have one: "sh_words None (shell_quote a) = Some [a]" for a
    using sh_words_shell_quote [of a "[]"] by simp
  show ?thesis using quoted one
    by (simp add: tar_create_command_def tar_extract_command_def sh_special_def sh_add_def Let_def)
qed

text \<open>
  Quoting does not stop the command itself from reading a word as an option: a directory
  whose name starts with a dash is passed to \<^verbatim>\<open>tar\<close> without the \<^verbatim>\<open>--\<close> that would end the options.
\<close>

lemma dash_directory_is_an_option:
  "sh_words None (tar_create_command ''backup/--remove-files'') =
     Some [''tar'', ''-cf'', ''-'', ''-C'', ''backup'', ''--remove-files'']"
  using sh_words_shell_quote [of "''--remove-files''" "[]"]
  by (simp add: tar_create_command_def parent_path_def filename_def sh_words_shell_quote sh_special_def sh_add_def)

end
