(* ===== verification/Wire_Format.thy ===== *)
theory Wire_Format
  imports Tcp_Transport Path_Safety
begin

unbundle bit_operations_syntax

text \<open>
  The wire format of the file-transfer tool (\<^verbatim>\<open>examples/file_transfer.cpp\<close>): a 48-byte header
  of a magic string and five big-endian 64-bit numbers, then the name, then the payload.
  Reading is modelled over a session, whose receives may return any part of what was
  asked for; over any stream transport the reader is shown to take exactly the bytes of
  one message, whatever the sizes of the pieces.
\<close>

section \<open>Constants and kinds\<close>

definition kChunkBytes :: nat where
  "kChunkBytes = 4 * 1024 * 1024"

definition kMagic :: "char list" where
  "kMagic = ''HLXFER3'' @ [CHR 0x00]"

definition kHeaderBytes :: nat where
  "kHeaderBytes = 48"

definition kMaxNameBytes :: u64 where
  "kMaxNameBytes = 4096"

definition kStreamingPayloadSize :: u64 where
  "kStreamingPayloadSize = - 1"

datatype TransferKind = File | DirectoryTar | FilePart | DirectoryEntry | DirectoryFile | DirectorySymlink

fun kind_value :: "TransferKind \<Rightarrow> u64" where
  "kind_value File = 1"
| "kind_value DirectoryTar = 2"
| "kind_value FilePart = 3"
| "kind_value DirectoryEntry = 4"
| "kind_value DirectoryFile = 5"
| "kind_value DirectorySymlink = 6"

text \<open>
  The cast from a wire value and the test that it is one of the enumerators; any other
  value is rejected by the code before it is used.
\<close>

definition kind_of_value :: "u64 \<Rightarrow> TransferKind option" where
  "kind_of_value v =
     (if v = 1 then Some File else if v = 2 then Some DirectoryTar else if v = 3 then Some FilePart
      else if v = 4 then Some DirectoryEntry else if v = 5 then Some DirectoryFile
      else if v = 6 then Some DirectorySymlink else None)"

section \<open>Numbers and headers\<close>

definition write_u64_be :: "u64 \<Rightarrow> byte list" where
  "write_u64_be value = map (\<lambda>index. ucast (drop_bit ((7 - index) * 8) value AND 0xFF)) [0..<8]"

definition read_u64_be :: "byte list \<Rightarrow> u64" where
  "read_u64_be buffer = foldl (\<lambda>value byte. push_bit 8 value OR ucast byte) 0 (take 8 buffer)"

definition make_header :: "TransferKind \<Rightarrow> u64 \<Rightarrow> u64 \<Rightarrow> u64 \<Rightarrow> u64 \<Rightarrow> byte list" where
  "make_header kind payload_size name_size offset total_size =
     map byte_of_char kMagic @ write_u64_be (kind_value kind) @ write_u64_be payload_size @
     write_u64_be name_size @ write_u64_be offset @ write_u64_be total_size"

section \<open>Reading from a session\<close>

text \<open>
  \<^verbatim>\<open>receive_exact\<close> with \<open>n\<close> bytes still to be filled; the bytes stored are returned.
\<close>

function receive_exact :: "'t transport_ops \<Rightarrow> nat \<Rightarrow> ('t session, byte list) eff" where
  "receive_exact ops n s =
     (if n = 0 then (Inr [], s)
      else case session_receive_into ops n s of
             (Inl e, s') \<Rightarrow> (Inl e, s')
           | (Inr bytes, s') \<Rightarrow>
               if bytes = []
               then (Inl (Runtime_error ''connection closed before expected bytes arrived''), s')
               else case receive_exact ops (n - length bytes) s' of
                      (Inl e, s'') \<Rightarrow> (Inl e, s'')
                    | (Inr more_bytes, s'') \<Rightarrow> (Inr (bytes @ more_bytes), s''))"
  by pat_completeness auto
termination
  by (relation "measure (\<lambda>(ops, n, s). n)") auto

declare receive_exact.simps [simp del]

record IncomingHeader =
  ih_kind :: TransferKind
  ih_payload_size :: u64
  ih_name_size :: u64
  ih_offset :: u64
  ih_total_size :: u64
  ih_file_name :: string

text \<open>\<^verbatim>\<open>subspan(offset, 8)\<close> of the header.\<close>

definition field :: "nat \<Rightarrow> byte list \<Rightarrow> u64" where
  "field offset header = read_u64_be (take 8 (drop offset header))"

text \<open>The checks both readers make on the 48 bytes, in their order.\<close>

definition decode_header :: "byte list \<Rightarrow> IncomingHeader result" where
  "decode_header header =
     (if take (length kMagic) header \<noteq> map byte_of_char kMagic
      then Inl (Runtime_error ''invalid file-transfer header'')
      else if field 24 header = 0 \<or> field 24 header > kMaxNameBytes
      then Inl (Runtime_error ''invalid incoming file name length'')
      else case kind_of_value (field 8 header) of
             None \<Rightarrow> Inl (Runtime_error ''unsupported incoming transfer kind'')
           | Some kind \<Rightarrow> Inr \<lparr>ih_kind = kind, ih_payload_size = field 16 header, ih_name_size = field 24 header,
               ih_offset = field 32 header, ih_total_size = field 40 header, ih_file_name = []\<rparr>)"

definition receive_name :: "'t transport_ops \<Rightarrow> IncomingHeader \<Rightarrow> ('t session, string) eff" where
  "receive_name ops incoming =
     bindE (receive_exact ops (unat (ih_name_size incoming))) (\<lambda>bytes. returnE (map char_of_byte bytes))"

definition receive_header :: "'t transport_ops \<Rightarrow> ('t session, IncomingHeader) eff" where
  "receive_header ops =
     bindE (receive_exact ops kHeaderBytes) (\<lambda>header.
     bindE (liftE (decode_header header)) (\<lambda>incoming.
     bindE (receive_name ops incoming) (\<lambda>name.
     bindE (liftE (safe_file_name name)) (\<lambda>file.
     returnE (incoming\<lparr>ih_file_name := file\<rparr>)))))"

text \<open>
  The header loop of the parallel receiver: \<open>got\<close> is the part read so far; an end of the
  stream before the first byte is the end of the transfer.
\<close>

function header_loop :: "'t transport_ops \<Rightarrow> byte list \<Rightarrow> ('t session, byte list option) eff" where
  "header_loop ops got s =
     (if length got < kHeaderBytes
      then case session_receive_into ops (kHeaderBytes - length got) s of
             (Inl e, s') \<Rightarrow> (Inl e, s')
           | (Inr bytes, s') \<Rightarrow>
               if bytes = []
               then if got = [] then (Inr None, s')
                    else (Inl (Runtime_error ''connection closed in the middle of a header''), s')
               else header_loop ops (got @ bytes) s'
      else (Inr (Some got), s))"
  by pat_completeness auto
termination
  by (relation "measure (\<lambda>(ops, got, s). kHeaderBytes - length got)") (auto simp: kHeaderBytes_def intro!: diff_less_mono2)

declare header_loop.simps [simp del]

definition receive_header_optional :: "'t transport_ops \<Rightarrow> ('t session, IncomingHeader option) eff" where
  "receive_header_optional ops =
     bindE (header_loop ops []) (\<lambda>got.
       case got of
         None \<Rightarrow> returnE None
       | Some header \<Rightarrow>
           bindE (liftE (decode_header header)) (\<lambda>incoming.
           bindE (receive_name ops incoming) (\<lambda>name.
           returnE (Some (incoming\<lparr>ih_file_name := name\<rparr>)))))"

text \<open>
  The buffer has the size the peer announced; that it cannot be allocated is not modelled.
\<close>

definition receive_text_payload :: "'t transport_ops \<Rightarrow> u64 \<Rightarrow> ('t session, string) eff" where
  "receive_text_payload ops payload_size =
     bindE (receive_exact ops (unat payload_size)) (\<lambda>bytes. returnE (map char_of_byte bytes))"

section \<open>Round trips of numbers and headers\<close>

lemma next_byte: "push_bit 8 (drop_bit 8 x) OR ucast (ucast (x AND 0xFF) :: byte) = (x :: u64)"
proof -
  have m: "(0xFF :: u64) = mask 8" by (simp add: mask_eq_exp_minus_1)
  have "bit (push_bit 8 (drop_bit 8 x) OR ucast (ucast (x AND mask 8) :: byte)) n = bit x n" if "n < 64" for n
    using that by (cases "n < 8") (simp_all add: bit_simps)
  then show ?thesis unfolding m by (intro bit_word_eqI) simp
qed

lemma length_write_u64_be [simp]: "length (write_u64_be v) = 8"
  by (simp add: write_u64_be_def)

lemma read_prefix: "k \<le> 8 \<Longrightarrow>
    foldl (\<lambda>value byte. push_bit 8 value OR ucast byte) (0 :: u64) (take k (write_u64_be v)) = drop_bit ((8 - k) * 8) v"
proof (induction k)
  case 0
  have "drop_bit 64 v = 0" by (rule bit_word_eqI) (simp add: bit_simps)
  then show ?case by simp
next
  case (Suc k)
  have *: "write_u64_be v ! k = ucast (drop_bit ((7 - k) * 8) v AND 0xFF)"
    using Suc.prems by (simp add: write_u64_be_def)
  have d: "drop_bit ((8 - k) * 8) v = drop_bit 8 (drop_bit ((7 - k) * 8) v)"
    using Suc.prems by (simp add: drop_bit_drop_bit diff_mult_distrib)
  from Suc have "foldl (\<lambda>value byte. push_bit 8 value OR ucast byte) (0 :: u64) (take k (write_u64_be v)) =
      drop_bit 8 (drop_bit ((7 - k) * 8) v)" by (simp only: d Suc_leD)
  with Suc.prems * next_byte [of "drop_bit ((7 - k) * 8) v"] show ?case by (simp add: take_Suc_conv_app_nth)
qed

lemma read_write_u64 [simp]: "read_u64_be (write_u64_be v) = v"
  using read_prefix [of 8 v] by (simp add: read_u64_be_def)

lemma low_byte: "ucast ((push_bit 8 v OR ucast (b :: byte)) AND 0xFF :: u64) = b"
proof -
  have m: "(0xFF :: u64) = mask 8" by (simp add: mask_eq_exp_minus_1)
  show ?thesis unfolding m by (rule bit_word_eqI) (auto simp: bit_simps)
qed

lemma high_byte: "j < 7 \<Longrightarrow> ucast (drop_bit (Suc j * 8) (push_bit 8 v OR ucast (b :: byte)) AND 0xFF :: u64) =
   (ucast (drop_bit (j * 8) v AND 0xFF) :: byte)"
proof -
  assume "j < 7"
  have m: "(0xFF :: u64) = mask 8" by (simp add: mask_eq_exp_minus_1)
  show ?thesis unfolding m by (rule bit_word_eqI) (use \<open>j < 7\<close> in \<open>auto simp: bit_simps dest: bit_imp_le_length\<close>)
qed


lemma byte_of_fold:
  "length bs \<le> 8 \<Longrightarrow> j < length bs \<Longrightarrow>
   ucast (drop_bit (j * 8) (foldl (\<lambda>value byte. push_bit 8 value OR ucast byte) (0 :: u64) bs) AND 0xFF) = (rev bs ! j :: byte)"
proof (induction bs arbitrary: j rule: rev_induct)
  case (snoc b bs)
  show ?case
  proof (cases j)
    case 0
    then show ?thesis using low_byte by simp
  next
    case (Suc i)
    with snoc have "ucast (drop_bit (i * 8) (foldl (\<lambda>value byte. push_bit 8 value OR ucast byte) (0 :: u64) bs) AND 0xFF) = rev bs ! i" "i < 7" by auto
    then show ?thesis using high_byte [of i] Suc by (simp del: mult_Suc)
  qed
qed simp

lemma write_read_u64: "length bs = 8 \<Longrightarrow> write_u64_be (read_u64_be bs) = bs"
  by (rule nth_equalityI) (use byte_of_fold [of bs] in \<open>simp_all add: write_u64_be_def read_u64_be_def rev_nth\<close>)

lemma length_kMagic [simp]: "length kMagic = 8"
  by (simp add: kMagic_def)

lemma length_make_header [simp]: "length (make_header k p n f t) = 48"
  by (simp add: make_header_def)

lemma kind_of_value_kind_value [simp]: "kind_of_value (kind_value k) = Some k"
  by (cases k) (simp_all add: kind_of_value_def)

lemma header_fields [simp]:
  "field 8 (make_header k p n f t) = kind_value k" "field 16 (make_header k p n f t) = p"
  "field 24 (make_header k p n f t) = n" "field 32 (make_header k p n f t) = f"
  "field 40 (make_header k p n f t) = t" "take 8 (make_header k p n f t) = map byte_of_char kMagic"
  by (simp_all add: field_def make_header_def)

lemma decode_make_header:
  "n \<noteq> 0 \<Longrightarrow> n \<le> 4096 \<Longrightarrow> decode_header (make_header k p n f t) =
     Inr \<lparr>ih_kind = k, ih_payload_size = p, ih_name_size = n, ih_offset = f, ih_total_size = t, ih_file_name = []\<rparr>"
  by (auto simp: decode_header_def kMaxNameBytes_def)

lemma name_size_word:
  assumes "name \<noteq> []" and "length name \<le> 4096"
  shows "unat (of_nat (length name) :: u64) = length name" "of_nat (length name) \<noteq> (0 :: u64)"
    "of_nat (length name) \<le> (4096 :: u64)"
proof -
  show u: "unat (of_nat (length name) :: u64) = length name" by (rule unat_of_nat_small) (use assms(2) in simp)
  show "of_nat (length name) \<noteq> (0 :: u64)"
  proof
    assume "of_nat (length name) = (0 :: u64)"
    with u have "length name = 0" by (simp only: unat_0)
    with assms(1) show False by simp
  qed
  show "of_nat (length name) \<le> (4096 :: u64)" unfolding word_le_nat_alt u using assms(2) by simp
qed

section \<open>Reading over a stream\<close>

text \<open>What a session over a stream transport has sent and still has to read.\<close>

definition up :: "'t session \<Rightarrow> 't \<Rightarrow> bool" where
  "up s t \<longleftrightarrow> s_connected s \<and> s_transport s = Some t"

lemma session_receive_into_up:
  "up s t \<Longrightarrow> session_receive_into ops n s = (fst (t_receive_into ops n t),
     s\<lparr>s_transport := Some (snd (t_receive_into ops n t))\<rparr>)"
  by (simp add: up_def session_receive_into_def)

lemma session_send_up:
  "up s t \<Longrightarrow> session_send ops payload s = (fst (t_send ops payload t),
     s\<lparr>s_transport := Some (snd (t_send ops payload t))\<rparr>)"
  by (simp add: up_def session_send_def)

lemma up_update [simp]: "up s t \<Longrightarrow> up (s\<lparr>s_transport := Some t'\<rparr>) t''\<longleftrightarrow> t'' = t'"
  by (auto simp: up_def)

context reliable_stream
begin

text \<open>One receive on a good connection.\<close>

lemma receive_step:
  assumes "up s t" and "good t"
  obtains bs t' where "session_receive_into ops n s = (Inr bs, s\<lparr>s_transport := Some t'\<rparr>)"
    "up (s\<lparr>s_transport := Some t'\<rparr>) t'" "good t'" "pending t = bs @ pending t'" "sent t' = sent t"
    "length bs \<le> n" "bs = [] \<Longrightarrow> n = 0 \<or> pending t = []"
proof -
  from receive_good [OF assms(2), of n] obtain bs t' where r: "t_receive_into ops n t = (Inr bs, t')" "good t'" by blast
  with receive_stream [OF good_invar [OF assms(2)] r(1)] receive_into_bound [OF good_invar [OF assms(2)] r(1)]
  have i: "pending t = bs @ pending t'" "sent t' = sent t" "length bs \<le> n" "bs = [] \<Longrightarrow> n = 0 \<or> pending t = []"
    by auto
  show ?thesis
    by (rule that [OF _ _ r(2) i]) (use assms(1) r(1) in \<open>simp_all add: session_receive_into_up\<close>)
qed

lemma receive_exact_reads:
  assumes "up s t" and "good t" and "n \<le> length (pending t)"
  shows "\<exists>s' t'. receive_exact ops n s = (Inr (take n (pending t)), s') \<and> up s' t' \<and> good t' \<and>
    pending t' = drop n (pending t) \<and> sent t' = sent t"
  using assms
proof (induction n arbitrary: s t rule: less_induct)
  case (less n)
  show ?case
  proof (cases "n = 0")
    case True
    with less.prems show ?thesis by (auto simp: receive_exact.simps)
  next
    case False
    from receive_step [OF less.prems(1,2), of n] obtain bs t'
      where r: "session_receive_into ops n s = (Inr bs, s\<lparr>s_transport := Some t'\<rparr>)"
        "up (s\<lparr>s_transport := Some t'\<rparr>) t'" "good t'" "pending t = bs @ pending t'" "sent t' = sent t"
        "length bs \<le> n" "bs = [] \<Longrightarrow> n = 0 \<or> pending t = []" by blast
    have ne: "bs \<noteq> []" using r(7) False less.prems(3) by auto
    have "n - length bs < n" "n - length bs \<le> length (pending t')" using ne False less.prems(3) r(4) by auto
    from less.IH [OF this(1) r(2,3) this(2)] obtain s'' t'' where
      i: "receive_exact ops (n - length bs) (s\<lparr>s_transport := Some t'\<rparr>) = (Inr (take (n - length bs) (pending t')), s'')"
        "up s'' t''" "good t''" "pending t'' = drop (n - length bs) (pending t')" "sent t'' = sent t'" by blast
    have "receive_exact ops n s = (Inr (bs @ take (n - length bs) (pending t')), s'')"
      using False r(1) ne i(1) by (subst receive_exact.simps) simp
    moreover have "take n (pending t) = bs @ take (n - length bs) (pending t')"
      "drop n (pending t) = drop (n - length bs) (pending t')" using r(4,6) by simp_all
    ultimately show ?thesis using i r(5) by auto
  qed
qed

lemma receive_exact_short:
  assumes "up s t" and "good t" and "length (pending t) < n"
  shows "\<exists>s' t'. receive_exact ops n s = (Inl (Runtime_error ''connection closed before expected bytes arrived''), s') \<and>
    up s' t' \<and> good t'"
  using assms
proof (induction n arbitrary: s t rule: less_induct)
  case (less n)
  from receive_step [OF less.prems(1,2), of n] obtain bs t'
    where r: "session_receive_into ops n s = (Inr bs, s\<lparr>s_transport := Some t'\<rparr>)"
      "up (s\<lparr>s_transport := Some t'\<rparr>) t'" "good t'" "pending t = bs @ pending t'" by blast
  show ?case
  proof (cases "bs = []")
    case True
    with r less.prems(3) show ?thesis by (subst receive_exact.simps) auto
  next
    case False
    have "n - length bs < n" "length (pending t') < n - length bs" using False less.prems(3) r(4) by auto
    from less.IH [OF this(1) r(2,3) this(2)] False r(1) less.prems(3) show ?thesis
      by (subst receive_exact.simps) auto
  qed
qed

lemma header_loop_reads:
  assumes "up s t" and "good t" and "length got \<le> 48" and "48 - length got \<le> length (pending t)"
  shows "\<exists>s' t'. header_loop ops got s = (Inr (Some (got @ take (48 - length got) (pending t))), s') \<and>
    up s' t' \<and> good t' \<and> pending t' = drop (48 - length got) (pending t) \<and> sent t' = sent t"
  using assms
proof (induction "48 - length got" arbitrary: got s t rule: less_induct)
  case less
  show ?case
  proof (cases "length got < 48")
    case False
    with less.prems show ?thesis by (auto simp: header_loop.simps kHeaderBytes_def)
  next
    case True
    from receive_step [OF less.prems(1,2), of "48 - length got"] obtain bs t'
      where r: "session_receive_into ops (48 - length got) s = (Inr bs, s\<lparr>s_transport := Some t'\<rparr>)"
        "up (s\<lparr>s_transport := Some t'\<rparr>) t'" "good t'" "pending t = bs @ pending t'" "sent t' = sent t"
        "length bs \<le> 48 - length got" "bs = [] \<Longrightarrow> 48 - length got = 0 \<or> pending t = []" by blast
    have ne: "bs \<noteq> []" using r(7) True less.prems(4) by auto
    then have "0 < length bs" by simp
    have m: "48 - length (got @ bs) < 48 - length got" "length (got @ bs) \<le> 48"
      "48 - length (got @ bs) \<le> length (pending t')"
      using True \<open>0 < length bs\<close> r(4,6) less.prems(4) by (simp_all only: length_append)
    from less.hyps [OF m(1) r(2,3) m(2,3)] obtain s'' t'' where
      i: "header_loop ops (got @ bs) (s\<lparr>s_transport := Some t'\<rparr>) =
          (Inr (Some ((got @ bs) @ take (48 - length (got @ bs)) (pending t'))), s'')"
        "up s'' t''" "good t''" "pending t'' = drop (48 - length (got @ bs)) (pending t')" "sent t'' = sent t'" by blast
    have "header_loop ops got s = header_loop ops (got @ bs) (s\<lparr>s_transport := Some t'\<rparr>)"
      using True r(1) ne by (subst header_loop.simps) (simp add: kHeaderBytes_def)
    moreover have "got @ take (48 - length got) (pending t) =
        (got @ bs) @ take (48 - length (got @ bs)) (pending t')"
      "drop (48 - length got) (pending t) = drop (48 - length (got @ bs)) (pending t')"
      using r(4,6) by simp_all
    ultimately show ?thesis using i r(5) by auto
  qed
qed

lemma header_loop_end:
  assumes "up s t" and "good t" and "pending t = []"
  shows "\<exists>s' t'. header_loop ops [] s = (Inr None, s') \<and> up s' t' \<and> good t'"
proof -
  from receive_step [OF assms(1,2), of 48] obtain bs t'
    where "session_receive_into ops 48 s = (Inr bs, s\<lparr>s_transport := Some t'\<rparr>)"
      "up (s\<lparr>s_transport := Some t'\<rparr>) t'" "good t'" "pending t = bs @ pending t'" by blast
  with assms(3) show ?thesis by (subst header_loop.simps) (auto simp: kHeaderBytes_def)
qed

text \<open>One send on a good connection.\<close>

lemma send_step:
  assumes "up s t" and "good t"
  obtains t' where "session_send ops payload s = (Inr (length payload), s\<lparr>s_transport := Some t'\<rparr>)"
    "up (s\<lparr>s_transport := Some t'\<rparr>) t'" "good t'" "sent t' = sent t @ payload" "pending t' = pending t"
proof -
  from send_good [OF assms(2), of payload] obtain k t' where r: "t_send ops payload t = (Inr k, t')" "good t'" by blast
  with send_stream [OF good_invar [OF assms(2)] r(1)] assms(1) that [of t'] show ?thesis
    by (simp add: session_send_up)
qed

lemma receive_name_reads:
  assumes "up s t" and "good t" and "pending t = map byte_of_char name @ rest"
    and "unat (ih_name_size incoming) = length name"
  shows "\<exists>s' t'. receive_name ops incoming s = (Inr name, s') \<and> up s' t' \<and> good t' \<and> pending t' = rest \<and> sent t' = sent t"
  using receive_exact_reads [OF assms(1,2), of "length name"] assms(3,4)
  by (auto simp: receive_name_def bindE_def returnE_def o_def)

lemma receive_header_optional_reads:
  assumes "up s t" and "good t" and "name \<noteq> []" and "length name \<le> 4096"
    and "pending t = make_header kind payload (of_nat (length name)) offset whole @ map byte_of_char name @ rest"
  shows "\<exists>s' t'. receive_header_optional ops s =
      (Inr (Some \<lparr>ih_kind = kind, ih_payload_size = payload, ih_name_size = of_nat (length name),
              ih_offset = offset, ih_total_size = whole, ih_file_name = name\<rparr>), s') \<and>
    up s' t' \<and> good t' \<and> pending t' = rest \<and> sent t' = sent t"
proof -
  let ?header = "make_header kind payload (of_nat (length name)) offset whole"
  let ?in = "\<lparr>ih_kind = kind, ih_payload_size = payload, ih_name_size = of_nat (length name),
              ih_offset = offset, ih_total_size = whole, ih_file_name = []\<rparr>"
  note u = name_size_word(1) [OF assms(3,4)] and n = name_size_word(2,3) [OF assms(3,4)]
  have "48 - length ([] :: byte list) \<le> length (pending t)" using assms(5) by simp
  from header_loop_reads [OF assms(1,2) _ this] assms(5) obtain s1 t1 where
    h: "header_loop ops [] s = (Inr (Some ?header), s1)" "up s1 t1" "good t1"
      "pending t1 = map byte_of_char name @ rest" "sent t1 = sent t" by auto
  from receive_name_reads [OF h(2-4), of ?in] u obtain s2 t2 where
    "receive_name ops ?in s1 = (Inr name, s2)" "up s2 t2" "good t2" "pending t2 = rest" "sent t2 = sent t" using h(5) by auto
  with h decode_make_header [OF n] show ?thesis
    by (auto simp: receive_header_optional_def bindE_def liftE_def returnE_def)
qed

lemma receive_header_reads:
  assumes "up s t" and "good t" and "name \<noteq> []" and "length name \<le> 4096"
    and "pending t = make_header kind payload (of_nat (length name)) offset whole @ map byte_of_char name @ rest"
  shows "\<exists>s' t'. receive_header ops s =
      (case safe_file_name name of
         Inl e \<Rightarrow> Inl e
       | Inr file \<Rightarrow> Inr \<lparr>ih_kind = kind, ih_payload_size = payload, ih_name_size = of_nat (length name),
           ih_offset = offset, ih_total_size = whole, ih_file_name = file\<rparr>, s') \<and>
    up s' t' \<and> good t' \<and> pending t' = rest \<and> sent t' = sent t"
proof -
  let ?header = "make_header kind payload (of_nat (length name)) offset whole"
  let ?in = "\<lparr>ih_kind = kind, ih_payload_size = payload, ih_name_size = of_nat (length name),
              ih_offset = offset, ih_total_size = whole, ih_file_name = []\<rparr>"
  note u = name_size_word(1) [OF assms(3,4)] and n = name_size_word(2,3) [OF assms(3,4)]
  have "kHeaderBytes \<le> length (pending t)" using assms(5) by (simp add: kHeaderBytes_def)
  from receive_exact_reads [OF assms(1,2) this] assms(5) obtain s1 t1 where
    h: "receive_exact ops kHeaderBytes s = (Inr ?header, s1)" "up s1 t1" "good t1"
      "pending t1 = map byte_of_char name @ rest" "sent t1 = sent t" by (auto simp: kHeaderBytes_def)
  from receive_name_reads [OF h(2-4), of ?in] u obtain s2 t2 where
    "receive_name ops ?in s1 = (Inr name, s2)" "up s2 t2" "good t2" "pending t2 = rest" "sent t2 = sent t" using h(5) by auto
  with h decode_make_header [OF n] show ?thesis
    by (cases "safe_file_name name") (auto simp: receive_header_def bindE_def liftE_def returnE_def)
qed

end

section \<open>Properties of the format\<close>

text \<open>
  C37. Header round trip. Over any reliable stream, however it cuts the data into pieces: if the
  bytes to be read start with the header and name that a sender makes, then both readers
  return exactly the sender's kind, sizes, offset and name (the single-stream reader
  checks the name first), and what remains to be read is what followed.
\<close>

theorem header_roundtrip:
  assumes "reliable_stream ops invar sent pending good"
    and "s_connected s" and "s_transport s = Some t" and "good t"
    and "name \<noteq> []" and "length name \<le> 4096"
    and "pending t = make_header kind payload (of_nat (length name)) offset whole @ map byte_of_char name @ rest"
  shows "\<exists>s' t' s'' t''.
    receive_header_optional ops s =
      (Inr (Some \<lparr>ih_kind = kind, ih_payload_size = payload, ih_name_size = of_nat (length name),
              ih_offset = offset, ih_total_size = whole, ih_file_name = name\<rparr>), s') \<and>
    s_transport s' = Some t' \<and> pending t' = rest \<and>
    receive_header ops s =
      (case safe_file_name name of
         Inl e \<Rightarrow> Inl e
       | Inr file \<Rightarrow> Inr \<lparr>ih_kind = kind, ih_payload_size = payload, ih_name_size = of_nat (length name),
           ih_offset = offset, ih_total_size = whole, ih_file_name = file\<rparr>, s'') \<and>
    s_transport s'' = Some t'' \<and> pending t'' = rest"
proof -
  have "up s t" using assms(2,3) by (simp add: up_def)
  with reliable_stream.receive_header_optional_reads [OF assms(1) _ assms(4-7)]
    reliable_stream.receive_header_reads [OF assms(1) _ assms(4-7)]
  show ?thesis unfolding up_def by blast
qed

lemma header_chunks:
  assumes "length header = 48"
  shows "header = take 8 header @ take 8 (drop 8 header) @ take 8 (drop 16 header) @ take 8 (drop 24 header) @
    take 8 (drop 32 header) @ take 8 (drop 40 header)"
proof -
  have "take 8 (drop k header) @ drop (k + 8) header = drop k header" for k
    using append_take_drop_id [of 8 "drop k header"] by (simp add: add.commute)
  from this [of 0] this [of 8] this [of 16] this [of 24] this [of 32] this [of 40] show ?thesis
    using assms by simp
qed

lemma write_field: "length header = 48 \<Longrightarrow> k \<le> 40 \<Longrightarrow> write_u64_be (field k header) = take 8 (drop k header)"
  unfolding field_def by (rule write_read_u64) simp

lemma kind_of_value_SomeD: "kind_of_value v = Some k \<Longrightarrow> kind_value k = v"
  by (auto simp: kind_of_value_def split: if_splits)

text \<open>
  C38. What counts as a header. The checks accept 48 bytes exactly when they are what \<^verbatim>\<open>make_header\<close>
  builds from the values they return, with a name length from 1 to 4096: nothing else
  passes, and no two different headers are read as the same values.
\<close>

theorem decode_header_exact:
  assumes "length header = 48"
  shows "decode_header header = Inr incoming \<longleftrightarrow>
    header = make_header (ih_kind incoming) (ih_payload_size incoming) (ih_name_size incoming)
      (ih_offset incoming) (ih_total_size incoming) \<and>
    0 < ih_name_size incoming \<and> ih_name_size incoming \<le> 4096 \<and> ih_file_name incoming = []"
    (is "_ \<longleftrightarrow> ?made")
proof
  assume d: "decode_header header = Inr incoming"
  have f: "take 8 header = map byte_of_char kMagic" "field 24 header \<noteq> 0" "field 24 header \<le> 4096"
    "kind_of_value (field 8 header) = Some (ih_kind incoming)" "ih_payload_size incoming = field 16 header"
    "ih_name_size incoming = field 24 header" "ih_offset incoming = field 32 header"
    "ih_total_size incoming = field 40 header" "ih_file_name incoming = []"
    using d by (auto simp: decode_header_def kMaxNameBytes_def split: if_splits option.splits)
  have "header = make_header (ih_kind incoming) (field 16 header) (field 24 header) (field 32 header) (field 40 header)"
    unfolding make_header_def kind_of_value_SomeD [OF f(4)] f(1) [symmetric]
    using header_chunks [OF assms] write_field [OF assms] by simp
  then show ?made using f by (simp add: word_neq_0_conv)
next
  assume ?made
  then show "decode_header header = Inr incoming"
    using decode_make_header [of "ih_name_size incoming"] by (cases incoming) (auto simp: word_neq_0_conv)
qed

theorem decode_header_exact_witness:
  "decode_header (make_header DirectoryFile 5 3 420 0) =
     Inr \<lparr>ih_kind = DirectoryFile, ih_payload_size = 5, ih_name_size = 3, ih_offset = 420, ih_total_size = 0, ih_file_name = []\<rparr>"
  using decode_header_exact [OF length_make_header, of DirectoryFile 5 3 420 0
      "\<lparr>ih_kind = DirectoryFile, ih_payload_size = 5, ih_name_size = 3, ih_offset = 420, ih_total_size = 0, ih_file_name = []\<rparr>"]
  by simp

text \<open>
  A connected session over the in-memory sockets, which deliver three bytes at a time, with
  given bytes to be read.
\<close>

definition mem_tcp :: "byte list \<Rightarrow> mem_world tcp" where
  "mem_tcp input = ((make_tcp_client_transport default_endpoint)\<lparr>tt_data_socket := 3\<rparr>,
     mem_start\<lparr>mw_next := 4, mw_open := {0, 1, 2, 3}, mw_in := (\<lambda>_. input)\<rparr>)"

definition mem_session :: "byte list \<Rightarrow> mem_world tcp session" where
  "mem_session input = \<lparr>s_transport = Some (mem_tcp input), s_connected = True\<rparr>"

lemma mem_tcp_good: "mem.tcp_good (mem_tcp input)"
  by (auto simp: mem.tcp_good_def mem_tcp_def tcp_inv_def held_def make_tcp_client_transport_def
      kInvalidSocket_def mem_start_def)

lemma mem_tcp_pending: "mem.tcp_pending (mem_tcp input) = input" "mem.tcp_sent (mem_tcp input) = []"
  by (simp_all add: mem.tcp_pending_def mem.tcp_sent_def mem_tcp_def mem_start_def)

lemma mem_session_up:
  "s_connected (mem_session input)" "s_transport (mem_session input) = Some (mem_tcp input)"
  by (simp_all add: mem_session_def)

theorem header_roundtrip_witness:
  "\<exists>s' s''.
    receive_header_optional (tcp_ops mem_api)
      (mem_session (make_header FilePart 10 4 20 30 @ map byte_of_char ''a.md'' @ [1, 2])) =
      (Inr (Some \<lparr>ih_kind = FilePart, ih_payload_size = 10, ih_name_size = 4,
              ih_offset = 20, ih_total_size = 30, ih_file_name = ''a.md''\<rparr>), s') \<and>
    receive_header (tcp_ops mem_api)
      (mem_session (make_header FilePart 10 4 20 30 @ map byte_of_char ''a.md'' @ [1, 2])) =
      (Inr \<lparr>ih_kind = FilePart, ih_payload_size = 10, ih_name_size = 4,
              ih_offset = 20, ih_total_size = 30, ih_file_name = ''a.md''\<rparr>, s'')"
proof -
  have "safe_file_name ''a.md'' = Inr ''a.md''" by (simp add: safe_file_name_def filename_def)
  with header_roundtrip [OF mem.tcp_up.reliable_stream_axioms mem_session_up mem_tcp_good,
      of "''a.md''" "make_header FilePart 10 4 20 30 @ map byte_of_char ''a.md'' @ [1, 2]" FilePart 10 20 30 "[1, 2]"]
  show ?thesis by (auto simp: mem_tcp_pending)
qed

end
