(* ===== verification/Transfer_Plan.thy ===== *)
theory Transfer_Plan
  imports Wire_Format
begin

text \<open>
  The planning part of the file-transfer tool (\<^verbatim>\<open>examples/file_transfer.cpp\<close>): the command
  line, the endpoint of a stream, the division of a file into one byte range per stream
  and of a directory's entries over the streams, and the collection of the streams'
  results. All sizes are 64-bit words, as in the code.
\<close>

section \<open>Command line\<close>

definition kDefaultPort :: u16 where
  "kDefaultPort = 47790"

definition kDefaultDiscoveryPort :: u16 where
  "kDefaultDiscoveryPort = 47789"

record Options =
  o_send :: bool
  o_receive :: bool
  o_auto_discover :: bool
  o_advertise :: bool
  o_host :: string
  o_port :: u16
  o_discovery_port :: u16
  o_parallel :: u32
  o_file :: string
  o_output_dir :: string
  o_remote_name :: string

definition default_transfer_options :: Options where
  "default_transfer_options = \<lparr>o_send = False, o_receive = False, o_auto_discover = False, o_advertise = True,
     o_host = ''0.0.0.0'', o_port = kDefaultPort, o_discovery_port = kDefaultDiscoveryPort, o_parallel = 1,
     o_file = [], o_output_dir = ''.'', o_remote_name = []\<rparr>"

definition parse_port :: "string \<Rightarrow> u16 result" where
  "parse_port value =
     (case stoul value of
        Inl e \<Rightarrow> Inl e
      | Inr parsed \<Rightarrow>
          if parsed = 0 \<or> parsed > 65535 then Inl (Invalid_argument ''port must be between 1 and 65535'')
          else Inr (ucast parsed))"

definition parse_parallel :: "string \<Rightarrow> u32 result" where
  "parse_parallel value =
     (case stoul value of
        Inl e \<Rightarrow> Inl e
      | Inr parsed \<Rightarrow>
          if (ucast parsed :: u32) = 0 then Inl (Invalid_argument ''parallel must be positive'')
          else Inr (ucast parsed))"

definition requires_value :: "string \<Rightarrow> exn" where
  "requires_value name = Invalid_argument (name @ '' requires a value'')"

text \<open>The branches of the argument loop for options without and with a value.\<close>

definition flag_option :: "string \<Rightarrow> Options \<Rightarrow> Options option" where
  "flag_option arg options =
     (if arg = ''--send'' then Some (options\<lparr>o_send := True, o_host := ''127.0.0.1''\<rparr>)
      else if arg = ''--receive'' then Some (options\<lparr>o_receive := True, o_host := ''0.0.0.0''\<rparr>)
      else if arg = ''--auto'' then Some (options\<lparr>o_auto_discover := True, o_host := []\<rparr>)
      else if arg = ''--no-advertise'' then Some (options\<lparr>o_advertise := False\<rparr>)
      else None)"

definition takes_value :: "string \<Rightarrow> bool" where
  "takes_value arg \<longleftrightarrow> arg \<in> {''--host'', ''--port'', ''--discovery-port'', ''--parallel'', ''--file'',
     ''--output-dir'', ''--out'', ''--name''}"

definition value_option :: "string \<Rightarrow> string \<Rightarrow> Options \<Rightarrow> Options result" where
  "value_option arg value options =
     (if arg = ''--host'' then Inr (options\<lparr>o_host := value\<rparr>)
      else if arg = ''--port''
      then case parse_port value of Inl e \<Rightarrow> Inl e | Inr port \<Rightarrow> Inr (options\<lparr>o_port := port\<rparr>)
      else if arg = ''--discovery-port''
      then case parse_port value of Inl e \<Rightarrow> Inl e | Inr port \<Rightarrow> Inr (options\<lparr>o_discovery_port := port\<rparr>)
      else if arg = ''--parallel''
      then case parse_parallel value of Inl e \<Rightarrow> Inl e | Inr n \<Rightarrow> Inr (options\<lparr>o_parallel := n\<rparr>)
      else if arg = ''--file'' then Inr (options\<lparr>o_file := value\<rparr>)
      else if arg = ''--name'' then Inr (options\<lparr>o_remote_name := value\<rparr>)
      else Inr (options\<lparr>o_output_dir := value\<rparr>))"

text \<open>
  The loop over the arguments; \<open>None\<close> is the \<^verbatim>\<open>exit(0)\<close> after \<^verbatim>\<open>--help\<close>. An option with a value
  takes the next argument, whatever it looks like.
\<close>

fun parse_loop :: "string list \<Rightarrow> Options \<Rightarrow> Options option result" where
  "parse_loop [] options = Inr (Some options)"
| "parse_loop (arg # args) options =
     (case flag_option arg options of
        Some options' \<Rightarrow> parse_loop args options'
      | None \<Rightarrow>
          if takes_value arg
          then case args of
                 [] \<Rightarrow> Inl (requires_value arg)
               | value # rest \<Rightarrow>
                   (case value_option arg value options of
                      Inl e \<Rightarrow> Inl e
                    | Inr options' \<Rightarrow> parse_loop rest options')
          else if arg = ''--help'' \<or> arg = ''-h'' then Inr None
          else Inl (Invalid_argument (''unknown argument: '' @ arg)))"

definition check_options :: "Options \<Rightarrow> unit result" where
  "check_options options =
     (if o_send options = o_receive options
      then Inl (Invalid_argument ''choose exactly one of --send or --receive'')
      else if o_send options \<and> o_file options = []
      then Inl (Invalid_argument ''--send requires --file'')
      else if o_receive options \<and> o_auto_discover options
      then Inl (Invalid_argument ''--auto is only valid with --send'')
      else if (ucast (o_port options) :: u64) + ucast (o_parallel options) - 1 > 65535
      then Inl (Invalid_argument ''port plus parallel stream count exceeds 65535'')
      else Inr ())"

definition parse_args :: "string list \<Rightarrow> Options option result" where
  "parse_args argv =
     (case parse_loop argv default_transfer_options of
        Inl e \<Rightarrow> Inl e
      | Inr None \<Rightarrow> Inr None
      | Inr (Some options) \<Rightarrow>
          (case check_options options of Inl e \<Rightarrow> Inl e | Inr _ \<Rightarrow> Inr (Some options)))"

section \<open>Streams\<close>

text \<open>\<^verbatim>\<open>options.port + stream\<close> is computed in 32 bits and cut to 16.\<close>

definition endpoint_for_stream :: "Options \<Rightarrow> u32 \<Rightarrow> TcpEndpoint" where
  "endpoint_for_stream options stream =
     \<lparr>te_host = o_host options, te_port = ucast (ucast (o_port options) + stream :: u32),
      te_send_buffer_bytes = 8 * 1024 * 1024, te_receive_buffer_bytes = 8 * 1024 * 1024\<rparr>"

record StreamResult =
  sr_bytes :: u64
  sr_error :: "exn option"

definition no_result :: StreamResult where
  "no_result = \<lparr>sr_bytes = 0, sr_error = None\<rparr>"

fun rethrow_first_error :: "StreamResult list \<Rightarrow> unit result" where
  "rethrow_first_error [] = Inr ()"
| "rethrow_first_error (result # results) =
     (case sr_error result of Some e \<Rightarrow> Inl e | None \<Rightarrow> rethrow_first_error results)"

definition total_bytes :: "StreamResult list \<Rightarrow> u64" where
  "total_bytes results = foldl (\<lambda>bytes result. bytes + sr_bytes result) 0 results"

definition byte_range_for_stream :: "u64 \<Rightarrow> u32 \<Rightarrow> u32 \<Rightarrow> u64 \<times> u64" where
  "byte_range_for_stream total_size stream parallel =
     (let base = total_size div ucast parallel;
          extra = total_size mod ucast parallel;
          offset = base * ucast stream + min (ucast stream) extra;
          amount = base + (if ucast stream < extra then 1 else 0)
      in (offset, amount))"

section \<open>Directories\<close>

record DirectoryItem =
  di_kind :: TransferKind
  di_source :: string
  di_relative_path :: string
  di_payload_size :: u64
  di_mode :: u64

record DirectoryPartition =
  dp_items :: "DirectoryItem list"
  dp_bytes :: u64

definition permissions_value :: "u64 \<Rightarrow> u64" where
  "permissions_value permissions = and permissions 0xFFF"

definition has_payload :: "DirectoryItem \<Rightarrow> bool" where
  "has_payload item \<longleftrightarrow> di_kind item = DirectoryFile \<or> di_kind item = DirectorySymlink"

text \<open>\<^verbatim>\<open>std::min_element\<close>: the first of the least elements.\<close>

fun min_element :: "DirectoryPartition list \<Rightarrow> nat" where
  "min_element [] = 0"
| "min_element [p] = 0"
| "min_element (p # q # ps) =
     (let i = min_element (q # ps) in if dp_bytes ((q # ps) ! i) < dp_bytes p then Suc i else 0)"

definition assign_item :: "DirectoryItem \<Rightarrow> DirectoryPartition list \<Rightarrow> DirectoryPartition list" where
  "assign_item item partitions =
     (let target = min_element partitions; p = partitions ! target
      in partitions[target := \<lparr>dp_items = dp_items p @ [item], dp_bytes = dp_bytes p + di_payload_size item\<rparr>])"

definition empty_partition :: DirectoryPartition where
  "empty_partition = \<lparr>dp_items = [], dp_bytes = 0\<rparr>"

definition partition_directory_items :: "DirectoryItem list \<Rightarrow> u32 \<Rightarrow> DirectoryPartition list" where
  "partition_directory_items items parallel =
     (let payload = filter has_payload items;
          metadata = filter (\<lambda>item. \<not> has_payload item) items;
          partitions = replicate (unat parallel) empty_partition;
          partitions = partitions[0 := (partitions ! 0)\<lparr>dp_items := metadata\<rparr>]
      in fold assign_item (sort_by (\<lambda>left right. di_payload_size left > di_payload_size right) payload) partitions)"

section \<open>The command line\<close>

lemma parse_port_nonzero: "parse_port value = Inr port \<Longrightarrow> port \<noteq> 0"
proof -
  assume a: "parse_port value = Inr port"
  then obtain v :: u64 where v: "v \<noteq> 0" "v \<le> 65535" "port = ucast v"
    by (auto simp: parse_port_def split: sum.splits if_splits)
  have "unat v \<le> 65535" using v(2) by (simp add: word_le_nat_alt)
  then have "unat port = unat v" using v(3) by (simp add: unsigned_ucast_eq take_bit_nat_eq_self)
  with v(1) show ?thesis by (metis unat_0 unat_eq_zero)
qed

lemma parse_parallel_nonzero: "parse_parallel value = Inr n \<Longrightarrow> n \<noteq> 0"
  by (auto simp: parse_parallel_def split: sum.splits if_splits)

definition sane :: "Options \<Rightarrow> bool" where
  "sane options \<longleftrightarrow> o_port options \<noteq> 0 \<and> o_discovery_port options \<noteq> 0 \<and> o_parallel options \<noteq> 0"

lemma flag_option_sane: "flag_option arg options = Some options' \<Longrightarrow> sane options \<Longrightarrow> sane options'"
  by (auto simp: flag_option_def sane_def split: if_splits)

lemma value_option_sane: "value_option arg value options = Inr options' \<Longrightarrow> sane options \<Longrightarrow> sane options'"
  by (auto simp: value_option_def sane_def split: if_splits sum.splits
      dest: parse_port_nonzero parse_parallel_nonzero)

lemma parse_loop_sane: "parse_loop args options = Inr (Some options') \<Longrightarrow> sane options \<Longrightarrow> sane options'"
proof (induction args options rule: parse_loop.induct)
  case (2 arg args options)
  show ?case
  proof (cases "flag_option arg options")
    case (Some next_options)
    from "2.IH"(2) [OF Some] "2.prems" flag_option_sane [OF Some] Some show ?thesis by simp
  next
    case None
    with "2.prems"(1) have v: "takes_value arg" by (simp split: if_splits)
    with None "2.prems"(1) obtain val rest next_options where
      n: "args = val # rest" "value_option arg val options = Inr next_options"
        "parse_loop rest next_options = Inr (Some options')"
      by (cases args; cases "value_option arg (hd args) options") simp_all
    from "2.IH"(1) [OF None v n(1,2,3)] value_option_sane [OF n(2)] "2.prems"(2) show ?thesis by simp
  qed
qed simp

lemma ucast_u64_unat [simp]:
  "unat (ucast (p :: u16) :: u64) = unat p" "unat (ucast (n :: u32) :: u64) = unat n"
  "unat (ucast (p :: u16) :: u32) = unat p"
proof -
  have "unat p < 2 ^ 64" "unat p < 2 ^ 32" "unat n < 2 ^ 64"
    using unat_less_power [of p] unat_less_power [of n] by simp_all
  then show "unat (ucast p :: u64) = unat p" "unat (ucast n :: u64) = unat n" "unat (ucast p :: u32) = unat p"
    by (simp_all add: unsigned_ucast_eq take_bit_nat_eq_self)
qed

lemma last_port_u64:
  assumes "(p :: u16) \<noteq> 0" "(n :: u32) \<noteq> 0"
  shows "unat ((ucast p :: u64) + ucast n - 1) = unat p + unat n - 1"
proof -
  have b: "unat p < 2 ^ 16" "unat n < 2 ^ 32" using unat_less_power [of p] unat_less_power [of n] by simp_all
  then have s: "unat ((ucast p :: u64) + ucast n) = unat p + unat n"
    by (subst unat_add_lem [THEN iffD1]) simp_all
  have "0 < unat p" using assms(1) by (simp add: unat_gt_0)
  with s have "(ucast p :: u64) + ucast n \<noteq> 0" by (metis add_gr_0 unat_0 less_numeral_extra(3))
  with s show ?thesis by (simp add: unat_minus_one)
qed

lemma endpoint_port:
  assumes "unat (o_port options) + unat (o_parallel options) - 1 \<le> 65535" and "stream < o_parallel options"
  shows "unat (te_port (endpoint_for_stream options stream)) = unat (o_port options) + unat stream"
proof -
  have "unat stream < unat (o_parallel options)" using assms(2) by (simp add: word_less_nat_alt)
  with assms(1) have le: "unat (o_port options) + unat stream \<le> 65535" by simp
  then have "unat (ucast (o_port options) + stream :: u32) = unat (o_port options) + unat stream"
    by (subst unat_add_lem [THEN iffD1]) simp_all
  with le show ?thesis by (simp add: endpoint_for_stream_def unsigned_ucast_eq take_bit_nat_eq_self)
qed

text \<open>
  C39. Accepted command lines. Options that \<^verbatim>\<open>parse_args\<close> returns choose exactly one direction, name a
  file to send and ask for discovery only when sending, and have non-zero ports and stream
  count; every stream then has its own TCP port, the consecutive ports from the given one
  up to at most 65535, so the 16-bit port of a stream never wraps.
\<close>

theorem parse_args_sound:
  assumes "parse_args argv = Inr (Some options)"
  shows "o_send options \<noteq> o_receive options \<and> (o_send options \<longrightarrow> o_file options \<noteq> []) \<and>
    (o_auto_discover options \<longrightarrow> o_send options) \<and>
    o_port options \<noteq> 0 \<and> o_discovery_port options \<noteq> 0 \<and> o_parallel options \<noteq> 0 \<and>
    (\<forall>stream < o_parallel options.
       unat (te_port (endpoint_for_stream options stream)) = unat (o_port options) + unat stream \<and>
       unat (o_port options) + unat stream \<le> 65535)"
proof -
  from assms have l: "parse_loop argv default_transfer_options = Inr (Some options)"
    and c: "check_options options = Inr ()"
    by (auto simp: parse_args_def split: sum.splits option.splits)
  have "sane options"
    by (rule parse_loop_sane [OF l]) (simp add: sane_def default_transfer_options_def kDefaultPort_def kDefaultDiscoveryPort_def)
  then have z: "o_port options \<noteq> 0" "o_discovery_port options \<noteq> 0" "o_parallel options \<noteq> 0" by (simp_all add: sane_def)
  have d: "o_send options \<noteq> o_receive options" "o_send options \<longrightarrow> o_file options \<noteq> []"
    "o_auto_discover options \<longrightarrow> \<not> o_receive options"
    "\<not> (ucast (o_port options) :: u64) + ucast (o_parallel options) - 1 > 65535"
    using c by (auto simp: check_options_def split: if_split_asm)
  have range: "unat (o_port options) + unat (o_parallel options) - 1 \<le> 65535"
    using d(4) last_port_u64 [OF z(1,3)] by (simp add: word_less_nat_alt)
  have "unat (te_port (endpoint_for_stream options stream)) = unat (o_port options) + unat stream \<and>
      unat (o_port options) + unat stream \<le> 65535" if "stream < o_parallel options" for stream
    using endpoint_port [OF range that] that range by (auto simp: word_less_nat_alt)
  with d z show ?thesis by blast
qed

theorem parse_args_sound_witness:
  "\<exists>options. parse_args [''--send'', ''--host'', ''10.0.0.2'', ''--file'', ''a.bin'', ''--parallel'', ''8''] =
      Inr (Some options) \<and>
     o_host options = ''10.0.0.2'' \<and> unat (te_port (endpoint_for_stream options 7)) = 47797"
proof -
  let ?argv = "[''--send'', ''--host'', ''10.0.0.2'', ''--file'', ''a.bin'', ''--parallel'', ''8'']"
  have eight: "stoul ''8'' = Inr 8" by (simp add: stoul_def isspace_def isdigit_def dec_value_def digit_value_def)
  obtain options where o: "parse_args ?argv = Inr (Some options)" "o_host options = ''10.0.0.2''"
    "o_port options = 47790" "o_parallel options = 8"
    by (simp add: parse_args_def flag_option_def takes_value_def value_option_def parse_parallel_def eight
        default_transfer_options_def kDefaultPort_def check_options_def)
  have "7 < o_parallel options" using o by simp
  with parse_args_sound [OF o(1)] have "unat (te_port (endpoint_for_stream options 7)) = unat (o_port options) + unat (7 :: u32)"
    by blast
  with o show ?thesis by simp
qed

section \<open>Byte ranges\<close>

text \<open>Where the range of a stream starts, as a natural number.\<close>

definition range_start :: "nat \<Rightarrow> nat \<Rightarrow> nat \<Rightarrow> nat" where
  "range_start whole parallel i = whole div parallel * i + min i (whole mod parallel)"

lemma range_start_0 [simp]: "range_start whole parallel 0 = 0"
  by (simp add: range_start_def)

lemma range_start_all: "0 < parallel \<Longrightarrow> range_start whole parallel parallel = whole"
  by (simp add: range_start_def min_def) (metis mod_less_divisor nat_le_linear not_le)

lemma range_start_Suc:
  "range_start whole parallel (Suc i) =
     range_start whole parallel i + (whole div parallel + (if i < whole mod parallel then 1 else 0))"
  by (auto simp: range_start_def min_def)

lemma range_start_mono: "i \<le> j \<Longrightarrow> range_start whole parallel i \<le> range_start whole parallel j"
  by (induction j rule: nat_induct_at_least [of i]) (simp_all add: range_start_Suc)

lemma range_start_le: "0 < parallel \<Longrightarrow> i \<le> parallel \<Longrightarrow> range_start whole parallel i \<le> whole"
  using range_start_mono [of i parallel whole parallel] range_start_all by simp

lemma byte_range_nat:
  assumes "stream < parallel"
  shows "unat (fst (byte_range_for_stream whole stream parallel)) = range_start (unat whole) (unat parallel) (unat stream)"
    and "unat (snd (byte_range_for_stream whole stream parallel)) =
      unat whole div unat parallel + (if unat stream < unat whole mod unat parallel then 1 else 0)"
proof -
  have i: "unat stream < unat parallel" using assms by (simp add: word_less_nat_alt)
  then have p: "0 < unat parallel" by simp
  let ?base = "whole div ucast parallel" and ?extra = "whole mod ucast parallel"
  have q: "unat ?base = unat whole div unat parallel" "unat ?extra = unat whole mod unat parallel"
    by (simp_all add: unat_div unat_mod)
  have bound: "range_start (unat whole) (unat parallel) (unat stream) < 2 ^ 64"
    using range_start_le [OF p, of "unat stream" "unat whole"] i unat_less_power [of whole] by simp
  have m: "unat (min (ucast stream) ?extra) = min (unat stream) (unat whole mod unat parallel)"
    by (simp add: min_def word_le_nat_alt q)
  have "unat ?base * unat stream < 2 ^ 64" using bound by (simp add: range_start_def q)
  then have "unat (?base * ucast stream) = unat ?base * unat stream" by (subst unat_mult_lem [THEN iffD1]) simp_all
  with m bound have "unat (?base * ucast stream + min (ucast stream) ?extra) =
      unat ?base * unat stream + min (unat stream) (unat whole mod unat parallel)"
    by (subst unat_add_lem [THEN iffD1]) (simp_all add: range_start_def q)
  then show "unat (fst (byte_range_for_stream whole stream parallel)) = range_start (unat whole) (unat parallel) (unat stream)"
    by (simp add: byte_range_for_stream_def Let_def range_start_def q)
  have "range_start (unat whole) (unat parallel) (Suc (unat stream)) \<le> unat whole"
    using range_start_le [OF p] i by simp
  then have "unat whole div unat parallel + (if unat stream < unat whole mod unat parallel then 1 else 0) < 2 ^ 64"
    using unat_less_power [of whole] by (simp add: range_start_Suc split: if_splits)
  then show "unat (snd (byte_range_for_stream whole stream parallel)) =
      unat whole div unat parallel + (if unat stream < unat whole mod unat parallel then 1 else 0)"
    by (auto simp: byte_range_for_stream_def Let_def word_less_nat_alt q unat_add_lem [THEN iffD1])
qed

lemma slices_tile:
  assumes "\<And>i. f i \<le> f (Suc i)" and "f 0 = (0 :: nat)"
  shows "concat (map (\<lambda>i. take (f (Suc i) - f i) (drop (f i) data)) [0..<k]) = take (f k) data"
proof (induction k)
  case (Suc k)
  have "take (f (Suc k)) data = take (f k) data @ take (f (Suc k) - f k) (drop (f k) data)"
    using assms(1) [of k] by (metis le_add_diff_inverse take_add)
  with Suc show ?case by simp
qed (simp add: assms)

text \<open>The bytes of a file that a stream sends.\<close>

definition stream_slice :: "byte list \<Rightarrow> u32 \<Rightarrow> u32 \<Rightarrow> byte list" where
  "stream_slice data stream parallel =
     (case byte_range_for_stream (of_nat (length data)) stream parallel of
        (offset, amount) \<Rightarrow> take (unat amount) (drop (unat offset) data))"

lemma stream_slice_nat:
  assumes "length data < 2 ^ 64" and "i < unat parallel"
  shows "stream_slice data (of_nat i) parallel =
    (let f = range_start (length data) (unat parallel) in take (f (Suc i) - f i) (drop (f i) data))"
proof -
  have u: "unat (of_nat i :: u32) = i" "unat (of_nat (length data) :: u64) = length data"
    using assms unat_less_power [of parallel] by (intro unat_of_nat_small; simp)+
  then have "of_nat i < parallel" using assms(2) by (simp add: word_less_nat_alt)
  from byte_range_nat [OF this, of "of_nat (length data)"] u show ?thesis
    by (simp add: stream_slice_def case_prod_unfold Let_def range_start_Suc)
qed

lemma stream_slices_tile:
  assumes "length data < 2 ^ 64" and "parallel \<noteq> 0"
  shows "concat (map (\<lambda>i. stream_slice data (of_nat i) parallel) [0..<unat parallel]) = data"
proof -
  let ?f = "range_start (length data) (unat parallel)"
  have "concat (map (\<lambda>i. stream_slice data (of_nat i) parallel) [0..<unat parallel]) =
      concat (map (\<lambda>i. take (?f (Suc i) - ?f i) (drop (?f i) data)) [0..<unat parallel])"
    by (intro arg_cong [of _ _ concat] map_cong refl) (simp add: stream_slice_nat [OF assms(1)] Let_def)
  also have "\<dots> = take (?f (unat parallel)) data" by (rule slices_tile) (simp_all add: range_start_Suc)
  also have "\<dots> = data" using assms(2) by (simp add: range_start_all unat_gt_0)
  finally show ?thesis .
qed

text \<open>
  C40. The ranges tile the file. For any file whose size fits 64 bits and any positive number of
  streams, the slices of the streams put one after another are the file: nothing is
  missing, nothing is sent twice. Each range lies within the file, no 64-bit computation
  wraps, and the sizes of two streams differ by at most one byte.
\<close>

theorem byte_ranges_tile:
  assumes "length data < 2 ^ 64" and "parallel \<noteq> 0"
  shows "concat (map (\<lambda>i. stream_slice data (of_nat i) parallel) [0..<unat parallel]) = data \<and>
    (\<forall>stream < parallel. case byte_range_for_stream (of_nat (length data)) stream parallel of (offset, amount) \<Rightarrow>
       unat offset + unat amount \<le> length data \<and>
       unat amount \<in> {length data div unat parallel, length data div unat parallel + 1})"
proof -
  have u: "unat (of_nat (length data) :: u64) = length data" using assms(1) by (intro unat_of_nat_small) simp
  have "unat offset + unat amount \<le> length data \<and>
      unat amount \<in> {length data div unat parallel, length data div unat parallel + 1}"
    if "stream < parallel" "byte_range_for_stream (of_nat (length data)) stream parallel = (offset, amount)"
    for stream offset amount
  proof -
    have "range_start (length data) (unat parallel) (Suc (unat stream)) \<le> length data"
      using that(1) by (intro range_start_le) (auto simp: word_less_nat_alt)
    with byte_range_nat [OF that(1), of "of_nat (length data)"] that(2) u show ?thesis
      by (simp add: range_start_Suc split: if_splits)
  qed
  with stream_slices_tile [OF assms] show ?thesis by (auto split: prod.splits)
qed

theorem byte_ranges_tile_witness:
  "concat (map (\<lambda>i. stream_slice [1, 2, 3, 4, 5, 6, 7] (of_nat i) 3) [0..<3]) = [1, 2, 3, 4, 5, 6, 7] \<and>
   byte_range_for_stream 7 0 3 = (0, 3) \<and> byte_range_for_stream 7 1 3 = (3, 2) \<and> byte_range_for_stream 7 2 3 = (5, 2)"
proof -
  have "byte_range_for_stream 7 0 3 = (0, 3)" "byte_range_for_stream 7 1 3 = (3, 2)" "byte_range_for_stream 7 2 3 = (5, 2)"
    by (simp_all add: byte_range_for_stream_def Let_def min_def word_le_nat_alt)
  with byte_ranges_tile [of "[1, 2, 3, 4, 5, 6, 7]" 3] show ?thesis by simp
qed

end
