(* ===== verification/File_Store.thy ===== *)
theory File_Store
  imports Hyperlink_Prelude
begin

text \<open>
  The file system as the file-transfer tool sees it through \<^verbatim>\<open>std::filesystem\<close> and the file
  streams: the fields of one record over an arbitrary type of file-system state, as the
  socket calls are. Opening, writing and the directory operations may fail. What the tool
  relies on is stated in two locales: reads and writes at a position of an open file have
  the documented effect on its bytes, and, where a theorem needs it, operations on a usable
  path succeed. Paths are compared as the strings the tool passes; no law speaks about any
  path but the one an operation names.
\<close>

section \<open>The operations\<close>

datatype file_status = Regular_file u64 | Directory u64 | Symlink | Other_file

record 'f file_api =
  fs_exists :: "string \<Rightarrow> 'f \<Rightarrow> bool"
  fs_is_directory :: "string \<Rightarrow> 'f \<Rightarrow> bool"
  fs_is_regular_file :: "string \<Rightarrow> 'f \<Rightarrow> bool"
  fs_file_size :: "string \<Rightarrow> 'f \<Rightarrow> u64 result"
  fs_symlink_status :: "string \<Rightarrow> 'f \<Rightarrow> file_status"
  fs_read_symlink :: "string \<Rightarrow> 'f \<Rightarrow> string result"
  fs_recursive_entries :: "string \<Rightarrow> 'f \<Rightarrow> string list result"
  fs_readable :: "string \<Rightarrow> 'f \<Rightarrow> bool"
  fs_read :: "string \<Rightarrow> nat \<Rightarrow> nat \<Rightarrow> 'f \<Rightarrow> byte list"
  fs_truncate :: "string \<Rightarrow> 'f \<Rightarrow> bool \<times> 'f"
  fs_resize :: "string \<Rightarrow> u64 \<Rightarrow> 'f \<Rightarrow> exn option \<times> 'f"
  fs_updatable :: "string \<Rightarrow> 'f \<Rightarrow> bool"
  fs_write :: "string \<Rightarrow> nat \<Rightarrow> byte list \<Rightarrow> 'f \<Rightarrow> bool \<times> 'f"
  fs_create_directories :: "string \<Rightarrow> 'f \<Rightarrow> string option \<times> 'f"
  fs_remove :: "string \<Rightarrow> 'f \<Rightarrow> 'f"
  fs_create_symlink :: "string \<Rightarrow> string \<Rightarrow> 'f \<Rightarrow> bool \<times> 'f"
  fs_permissions :: "string \<Rightarrow> u64 \<Rightarrow> 'f \<Rightarrow> 'f"

text \<open>
  Seeking takes a signed 64-bit offset: an unsigned offset of $2^{63}$ or more becomes
  negative and the stream fails.
\<close>

definition seekable :: "u64 \<Rightarrow> bool" where
  "seekable offset \<longleftrightarrow> unat offset < 2 ^ 63"

section \<open>Bytes of a file\<close>

text \<open>Writing at a position: a gap beyond the end is filled with zeros.\<close>

definition patch :: "byte list \<Rightarrow> nat \<Rightarrow> byte list \<Rightarrow> byte list" where
  "patch content position bytes =
     take position content @ replicate (position - length content) 0 @ bytes @
     drop (position + length bytes) content"

definition resized :: "byte list \<Rightarrow> nat \<Rightarrow> byte list" where
  "resized content n = take n content @ replicate (n - length content) 0"

lemma length_patch: "position + length bytes \<le> length content \<Longrightarrow> length (patch content position bytes) = length content"
  by (simp add: patch_def)

lemma nth_patch:
  assumes "position + length bytes \<le> length content" and "k < length content"
  shows "patch content position bytes ! k =
    (if position \<le> k \<and> k < position + length bytes then bytes ! (k - position) else content ! k)"
  using assms by (auto simp: patch_def nth_append min_def not_less)

lemma patch_append: "patch content (length content) bytes = content @ bytes"
  by (simp add: patch_def)

lemma length_resized [simp]: "length (resized content n) = n"
  by (simp add: resized_def)

locale file_store =
  fixes fs :: "'f file_api"
    and files :: "'f \<Rightarrow> string \<Rightarrow> byte list option"
  assumes read_law: "files f path = Some content \<Longrightarrow> fs_read fs path position n f = take n (drop position content)"
    and truncate_law: "fs_truncate fs path f = (True, f') \<Longrightarrow> files f' path = Some []"
    and resize_law: "files f path = Some content \<Longrightarrow> fs_resize fs path total_size f = (None, f') \<Longrightarrow>
      files f' path = Some (resized content (unat total_size))"
    and write_law: "files f path = Some content \<Longrightarrow> fs_write fs path position bytes f = (True, f') \<Longrightarrow>
      files f' path = Some (patch content position bytes)"

text \<open>A path on which operations succeed, whatever the tool does to it.\<close>

locale working_store = file_store fs files
  for fs :: "'f file_api" and files +
  fixes usable :: "'f \<Rightarrow> string \<Rightarrow> bool"
  assumes truncate_works: "usable f path \<Longrightarrow> \<exists>f'. fs_truncate fs path f = (True, f') \<and> usable f' path"
    and resize_works: "usable f path \<Longrightarrow> \<exists>f'. fs_resize fs path total_size f = (None, f') \<and> usable f' path"
    and update_works: "usable f path \<Longrightarrow> fs_updatable fs path f"
    and write_works: "usable f path \<Longrightarrow> \<exists>f'. fs_write fs path position bytes f = (True, f') \<and> usable f' path"

section \<open>An in-memory instance\<close>

text \<open>
  A flat store of regular files; every path can be opened, directories and links are not
  recorded.
\<close>

type_synonym mem_files = "string \<rightharpoonup> byte list"

definition mem_fs :: "mem_files file_api" where
  "mem_fs =
     \<lparr>fs_exists = \<lambda>path f. f path \<noteq> None,
      fs_is_directory = \<lambda>_ _. False,
      fs_is_regular_file = \<lambda>path f. f path \<noteq> None,
      fs_file_size = \<lambda>path f. (case f path of None \<Rightarrow> Inl (Filesystem_error path) | Some c \<Rightarrow> Inr (of_nat (length c))),
      fs_symlink_status = \<lambda>path f. (case f path of None \<Rightarrow> Other_file | Some _ \<Rightarrow> Regular_file 420),
      fs_read_symlink = \<lambda>path _. Inl (Filesystem_error path),
      fs_recursive_entries = \<lambda>path _. Inl (Filesystem_error path),
      fs_readable = \<lambda>path f. f path \<noteq> None,
      fs_read = \<lambda>path position n f. (case f path of None \<Rightarrow> [] | Some c \<Rightarrow> take n (drop position c)),
      fs_truncate = \<lambda>path f. (True, f(path \<mapsto> [])),
      fs_resize = \<lambda>path n f. (None, f(path \<mapsto> resized (case f path of None \<Rightarrow> [] | Some c \<Rightarrow> c) (unat n))),
      fs_updatable = \<lambda>_ _. True,
      fs_write = \<lambda>path position bytes f.
        (True, f(path \<mapsto> patch (case f path of None \<Rightarrow> [] | Some c \<Rightarrow> c) position bytes)),
      fs_create_directories = \<lambda>_ f. (None, f),
      fs_remove = \<lambda>path f. f(path := None),
      fs_create_symlink = \<lambda>_ _ f. (False, f),
      fs_permissions = \<lambda>_ _ f. f\<rparr>"

interpretation mem_store: working_store mem_fs "\<lambda>f. f" "\<lambda>_ _. True"
  by unfold_locales (auto simp: mem_fs_def)

end
