(* ===== verification/File_Sender.thy ===== *)
theory File_Sender
  imports Transfer_Plan File_Store
begin

text \<open>
  The sending side of \<^verbatim>\<open>examples/file_transfer.cpp\<close>: one stream's part of a file, one stream's
  share of a directory, the archive stream, and \<^verbatim>\<open>run_send\<close> that chooses between them. A
  stream's thread works on a connection and a result record of its own and only reads
  files, so that a thread is one function of its connection, and joining all threads
  collects their results. Each leaves on its connection exactly the messages that the
  wire format prescribes.
\<close>

section \<open>Sessions\<close>

text \<open>\<^verbatim>\<open>connect_session\<close> on a new session; if it throws, the session is destroyed, which closes it.\<close>

definition connect_session :: "'t transport_ops \<Rightarrow> string \<Rightarrow> ('t session, unit) eff" where
  "connect_session ops name =
     bindE (session_discover ops default_options) (\<lambda>peers.
       case peers of
         [] \<Rightarrow> throwE (Runtime_error ''transport returned no peers'')
       | peer # _ \<Rightarrow> session_connect ops peer default_options default_options name)"

definition new_session :: "'t \<Rightarrow> 't session" where
  "new_session t = \<lparr>s_transport = Some t, s_connected = False\<rparr>"

definition send_text :: "'t transport_ops \<Rightarrow> string \<Rightarrow> ('t session, unit) eff" where
  "send_text ops text = bindE (session_send ops (map byte_of_char text)) (\<lambda>_. returnE ())"

section \<open>A range of a file\<close>

text \<open>
  The loop that reads and sends; the count of bytes is part of the thread's result, also
  when a later send throws.
\<close>

function send_loop ::
  "'t transport_ops \<Rightarrow> 'f file_api \<Rightarrow> string \<Rightarrow> u64 \<Rightarrow> u64 \<Rightarrow> u64 \<Rightarrow> 'f \<Rightarrow> 't session \<Rightarrow>
   unit result \<times> u64 \<times> 't session" where
  "send_loop ops fs path offset payload_size so_far f s =
     (if so_far < payload_size
      then let remaining = payload_size - so_far;
               chunk = min (unat remaining) kChunkBytes;
               bytes = take chunk (fs_read fs path (unat offset + unat so_far) chunk f)
           in if bytes = []
              then (Inl (Runtime_error ''input file ended unexpectedly''), so_far, s)
              else case session_send ops bytes s of
                     (Inl e, s') \<Rightarrow> (Inl e, so_far, s')
                   | (Inr _, s') \<Rightarrow>
                       send_loop ops fs path offset payload_size (so_far + of_nat (length bytes)) f s'
      else (Inr (), so_far, s))"
  by pat_completeness auto

termination
proof (relation "measure (\<lambda>(ops, fs, path, offset, payload_size, so_far, f, s). unat (payload_size - so_far))")
  fix ops fs path offset payload_size so_far f s bytes and remaining :: u64 and chunk
  assume "so_far < payload_size" "remaining = payload_size - so_far" "chunk = min (unat remaining) kChunkBytes"
    "bytes = take chunk (fs_read fs path (unat offset + unat so_far) chunk f)" "bytes \<noteq> []"
  then have "0 < length bytes" "length bytes \<le> unat (payload_size - so_far)" by auto
  with count_down [OF \<open>so_far < payload_size\<close> this] show
    "((ops, fs, path, offset, payload_size, so_far + of_nat (length bytes), f, s'), ops, fs, path, offset, payload_size, so_far, f, s)
      \<in> measure (\<lambda>(ops, fs, path, offset, payload_size, so_far, f, s). unat (payload_size - so_far))" for s'
    by simp
qed auto

declare send_loop.simps [simp del]

definition result_of :: "u64 \<Rightarrow> unit result \<Rightarrow> StreamResult" where
  "result_of bytes r = \<lparr>sr_bytes = bytes, sr_error = (case r of Inl e \<Rightarrow> Some e | Inr _ \<Rightarrow> None)\<rparr>"

text \<open>
  \<^verbatim>\<open>send_file_range\<close>: the thread of one stream. The session is closed at the end and, by its
  destructor, when something throws.
\<close>

definition send_file_range ::
  "'t transport_ops \<Rightarrow> 'f file_api \<Rightarrow> Options \<Rightarrow> string \<Rightarrow> string \<Rightarrow> u64 \<Rightarrow> u64 \<Rightarrow> u64 \<Rightarrow> 'f \<Rightarrow> 't \<Rightarrow>
   StreamResult \<times> 't session" where
  "send_file_range ops fs options file_path remote_name total_size offset payload_size f t =
     (if \<not> fs_readable fs file_path f
      then (result_of 0 (Inl (Runtime_error (''failed to open input payload: '' @ file_path))), new_session t)
      else if \<not> seekable offset
      then (result_of 0 (Inl (Runtime_error ''failed to seek input file'')), new_session t)
      else case connect_session ops ''hyperlink-file'' (new_session t) of
             (Inl e, s) \<Rightarrow> (result_of 0 (Inl e), session_close ops s)
           | (Inr _, s) \<Rightarrow>
               let kind = (if o_parallel options > 1 then FilePart else File);
                   header = make_header kind payload_size (of_nat (length remote_name)) offset total_size
               in case bindE (session_send ops header) (\<lambda>_. send_text ops remote_name) s of
                    (Inl e, s1) \<Rightarrow> (result_of 0 (Inl e), session_close ops s1)
                  | (Inr _, s1) \<Rightarrow>
                      (case send_loop ops fs file_path offset payload_size 0 f s1 of
                         (r, bytes, s2) \<Rightarrow> (result_of bytes r, session_close ops s2)))"

section \<open>A share of a directory\<close>

definition send_item ::
  "'t transport_ops \<Rightarrow> 'f file_api \<Rightarrow> DirectoryItem \<Rightarrow> 'f \<Rightarrow> 't session \<Rightarrow> unit result \<times> u64 \<times> 't session" where
  "send_item ops fs item f s =
     (let header = make_header (di_kind item) (di_payload_size item)
                     (of_nat (length (di_relative_path item))) (di_mode item) 0
      in case bindE (session_send ops header) (\<lambda>_. send_text ops (di_relative_path item)) s of
           (Inl e, s1) \<Rightarrow> (Inl e, 0, s1)
         | (Inr _, s1) \<Rightarrow>
             if di_kind item = DirectoryFile
             then if \<not> fs_readable fs (di_source item) f
                  then (Inl (Runtime_error (''failed to open input file: '' @ di_source item)), 0, s1)
                  else send_loop ops fs (di_source item) 0 (di_payload_size item) 0 f s1
             else if di_kind item = DirectorySymlink
             then case fs_read_symlink fs (di_source item) f of
                    Inl e \<Rightarrow> (Inl e, 0, s1)
                  | Inr target \<Rightarrow>
                      (case send_text ops target s1 of
                         (Inl e, s2) \<Rightarrow> (Inl e, 0, s2)
                       | (Inr _, s2) \<Rightarrow> (Inr (), of_nat (length target), s2))
             else (Inr (), 0, s1))"

fun send_items ::
  "'t transport_ops \<Rightarrow> 'f file_api \<Rightarrow> DirectoryItem list \<Rightarrow> u64 \<Rightarrow> 'f \<Rightarrow> 't session \<Rightarrow>
   unit result \<times> u64 \<times> 't session" where
  "send_items ops fs [] bytes f s = (Inr (), bytes, s)"
| "send_items ops fs (item # items) bytes f s =
     (case send_item ops fs item f s of
        (Inl e, n, s') \<Rightarrow> (Inl e, bytes + n, s')
      | (Inr _, n, s') \<Rightarrow> send_items ops fs items (bytes + n) f s')"

definition send_directory_items ::
  "'t transport_ops \<Rightarrow> 'f file_api \<Rightarrow> DirectoryItem list \<Rightarrow> 'f \<Rightarrow> 't \<Rightarrow> StreamResult \<times> 't session" where
  "send_directory_items ops fs items f t =
     (case connect_session ops ''hyperlink-file'' (new_session t) of
        (Inl e, s) \<Rightarrow> (result_of 0 (Inl e), session_close ops s)
      | (Inr _, s) \<Rightarrow>
          (case send_items ops fs items 0 f s of (r, bytes, s') \<Rightarrow> (result_of bytes r, session_close ops s')))"

text \<open>
  \<^verbatim>\<open>collect_directory_items\<close>: the directory itself and everything below it, named relative to
  the directory's parent. Anything that is neither a link, a directory nor a regular file
  is left out.
\<close>

definition directory_item :: "'f file_api \<Rightarrow> string \<Rightarrow> string \<Rightarrow> 'f \<Rightarrow> DirectoryItem list result" where
  "directory_item fs root_parent path f =
     (let relative = lexically_relative path root_parent in
      case fs_symlink_status fs path f of
        Symlink \<Rightarrow>
          (case fs_read_symlink fs path f of
             Inl e \<Rightarrow> Inl e
           | Inr target \<Rightarrow> Inr [\<lparr>di_kind = DirectorySymlink, di_source = path, di_relative_path = relative,
               di_payload_size = of_nat (length target), di_mode = 0\<rparr>])
      | Directory permissions \<Rightarrow>
          Inr [\<lparr>di_kind = DirectoryEntry, di_source = path, di_relative_path = relative,
               di_payload_size = 0, di_mode = permissions_value permissions\<rparr>]
      | Regular_file permissions \<Rightarrow>
          (case fs_file_size fs path f of
             Inl e \<Rightarrow> Inl e
           | Inr bytes \<Rightarrow> Inr [\<lparr>di_kind = DirectoryFile, di_source = path, di_relative_path = relative,
               di_payload_size = bytes, di_mode = permissions_value permissions\<rparr>])
      | Other_file \<Rightarrow> Inr [])"

fun collect_items :: "'f file_api \<Rightarrow> string \<Rightarrow> string list \<Rightarrow> 'f \<Rightarrow> DirectoryItem list result" where
  "collect_items fs root_parent [] f = Inr []"
| "collect_items fs root_parent (path # paths) f =
     (case directory_item fs root_parent path f of
        Inl e \<Rightarrow> Inl e
      | Inr items \<Rightarrow> map_sum id (append items) (collect_items fs root_parent paths f))"

definition collect_directory_items :: "'f file_api \<Rightarrow> string \<Rightarrow> 'f \<Rightarrow> DirectoryItem list result" where
  "collect_directory_items fs directory f =
     (let root_parent = (if parent_path directory = [] then ''.'' else parent_path directory) in
      case directory_item fs root_parent directory f of
        Inl e \<Rightarrow> Inl e
      | Inr items \<Rightarrow>
          (case fs_recursive_entries fs directory f of
             Inl e \<Rightarrow> Inl e
           | Inr entries \<Rightarrow> map_sum id (append items) (collect_items fs root_parent entries f)))"

section \<open>An archive stream\<close>

text \<open>What a command run by \<^verbatim>\<open>popen\<close> for reading leaves: its output, a read error, its exit status.\<close>

record pipe_run =
  pr_output :: "byte list"
  pr_ferror :: bool
  pr_status :: int

function archive_loop ::
  "'t transport_ops \<Rightarrow> byte list \<Rightarrow> bool \<Rightarrow> u64 \<Rightarrow> 't session \<Rightarrow> u64 result \<times> 't session" where
  "archive_loop ops output ferror sent s =
     (let chunk = take kChunkBytes output in
      case (if chunk = [] then (Inr 0, s) else session_send ops chunk s) of
        (Inl e, s') \<Rightarrow> (Inl e, s')
      | (Inr _, s') \<Rightarrow>
          if length chunk < kChunkBytes
          then if ferror then (Inl (Runtime_error ''failed while reading directory archive stream''), s')
               else (Inr (sent + of_nat (length chunk)), s')
          else archive_loop ops (drop kChunkBytes output) ferror (sent + of_nat (length chunk)) s')"
  by pat_completeness auto
termination
  by (relation "measure (\<lambda>(ops, output, ferror, sent, s). length output)") (auto simp: kChunkBytes_def)

declare archive_loop.simps [simp del]

definition send_archive ::
  "'t transport_ops \<Rightarrow> (string \<Rightarrow> pipe_run option) \<Rightarrow> string \<Rightarrow> string \<Rightarrow> 't \<Rightarrow> u64 result \<times> 't session" where
  "send_archive ops popen directory remote_name t =
     (case connect_session ops ''hyperlink-file'' (new_session t) of
        (Inl e, s) \<Rightarrow> (Inl e, session_close ops s)
      | (Inr _, s) \<Rightarrow>
          let header = make_header DirectoryTar kStreamingPayloadSize (of_nat (length remote_name)) 0 kStreamingPayloadSize
          in case bindE (session_send ops header) (\<lambda>_. send_text ops remote_name) s of
               (Inl e, s1) \<Rightarrow> (Inl e, session_close ops s1)
             | (Inr _, s1) \<Rightarrow>
                 let command = tar_create_command directory in
                 case popen command of
                   None \<Rightarrow> (Inl (Runtime_error (''failed to start command: '' @ command)), session_close ops s1)
                 | Some run \<Rightarrow>
                     (case archive_loop ops (pr_output run) (pr_ferror run) 0 s1 of
                        (Inl e, s2) \<Rightarrow> (Inl e, session_close ops s2)
                      | (Inr sent, s2) \<Rightarrow>
                          if pr_status run \<noteq> 0
                          then (Inl (Runtime_error (''command failed: '' @ command)), session_close ops s2)
                          else (Inr sent, session_close ops s2)))"

section \<open>run\_send\<close>

definition effective_options ::
  "(u16 \<Rightarrow> DiscoveredPeer result) \<Rightarrow> Options \<Rightarrow> Options result" where
  "effective_options select options =
     (if \<not> o_auto_discover options then Inr options
      else case select (o_discovery_port options) of
             Inl e \<Rightarrow> Inl e
           | Inr receiver \<Rightarrow>
               let chosen = options\<lparr>o_host := pe_host (dp_endpoint receiver),
                     o_port := pe_transfer_port (dp_endpoint receiver),
                     o_parallel := pe_parallel_streams (dp_endpoint receiver)\<rparr>
               in if (ucast (o_port chosen) :: u64) + ucast (o_parallel chosen) - 1 > 65535
                  then Inl (Runtime_error ''discovered peer port plus parallel stream count exceeds 65535'')
                  else Inr chosen)"

definition streams :: "Options \<Rightarrow> u32 list" where
  "streams options = map of_nat [0..<unat (o_parallel options)]"

text \<open>
  Joining: the error of the lowest-numbered stream that failed, otherwise the sum of the
  bytes.
\<close>

definition join_results :: "StreamResult list \<Rightarrow> u64 result" where
  "join_results results = map_sum id (\<lambda>_. total_bytes results) (rethrow_first_error results)"

text \<open>
  The result is the number of bytes sent, which the code prints with the rate before it
  returns 0 (\<open>main\<close> in the theory of the whole program turns it into the exit code); the
  sessions are those of the streams, for what was sent on them.
\<close>

definition run_send ::
  "'t transport_ops \<Rightarrow> 'f file_api \<Rightarrow> (string \<Rightarrow> pipe_run option) \<Rightarrow> (u16 \<Rightarrow> DiscoveredPeer result) \<Rightarrow>
   (TcpEndpoint \<Rightarrow> 't) \<Rightarrow> Options \<Rightarrow> 'f \<Rightarrow> u64 result \<times> 't session list" where
  "run_send ops fs popen select connection options f =
     (case effective_options select options of
        Inl e \<Rightarrow> (Inl e, [])
      | Inr options \<Rightarrow>
          let file = o_file options; directory = fs_is_directory fs file f in
          if \<not> fs_exists fs file f
          then (Inl (Runtime_error (''path does not exist: '' @ file)), [])
          else if directory \<and> o_remote_name options \<noteq> []
          then (Inl (Runtime_error ''--name is not supported for directory transfers yet''), [])
          else if \<not> directory \<and> \<not> fs_is_regular_file fs file f
          then (Inl (Runtime_error (''path is not a regular file or directory: '' @ file)), [])
          else case (if directory then Inr kStreamingPayloadSize else fs_file_size fs file f) of
                 Inl e \<Rightarrow> (Inl e, [])
               | Inr payload_size \<Rightarrow>
          case safe_file_name (if o_remote_name options = [] then filename file else o_remote_name options) of
            Inl e \<Rightarrow> (Inl e, [])
          | Inr remote_name \<Rightarrow>
              let at_stream = (\<lambda>stream. connection (endpoint_for_stream options stream)) in
              if directory \<and> o_parallel options > 1
              then case collect_directory_items fs file f of
                     Inl e \<Rightarrow> (Inl e, [])
                   | Inr items \<Rightarrow>
                       let partitions = partition_directory_items items (o_parallel options);
                           threads = map (\<lambda>stream. send_directory_items ops fs
                             (dp_items (partitions ! unat stream)) f (at_stream stream)) (streams options)
                       in (join_results (map fst threads), map snd threads)
              else if directory
              then case send_archive ops popen file remote_name (at_stream 0) of (r, s) \<Rightarrow> (r, [s])
              else let threads = map (\<lambda>stream.
                         case byte_range_for_stream payload_size stream (o_parallel options) of
                           (offset, bytes) \<Rightarrow> send_file_range ops fs options file remote_name payload_size
                             offset bytes f (at_stream stream)) (streams options)
                   in (join_results (map fst threads), map snd threads))"

section \<open>What a sender leaves on its connection\<close>

text \<open>A reliable connection together with a file system that keeps its bytes.\<close>

locale file_transfer = reliable_stream ops invar sent pending good + file_store fs files
  for ops :: "'t transport_ops" and invar sent pending good
    and fs :: "'f file_api" and files
begin

lemma send_text_stream:
  assumes "up s t" and "good t"
  shows "\<exists>s' t'. send_text ops msg s = (Inr (), s') \<and> up s' t' \<and> good t' \<and>
    sent t' = sent t @ map byte_of_char msg \<and> pending t' = pending t"
proof -
  from send_step [OF assms, of "map byte_of_char msg"] obtain t' where
    "session_send ops (map byte_of_char msg) s = (Inr (length (map byte_of_char msg)), s\<lparr>s_transport := Some t'\<rparr>)"
    "up (s\<lparr>s_transport := Some t'\<rparr>) t'" "good t'" "sent t' = sent t @ map byte_of_char msg" "pending t' = pending t"
    by blast
  then show ?thesis by (simp add: send_text_def bindE_def returnE_def) blast
qed

lemma send_header_stream:
  assumes "up s t" and "good t"
  shows "\<exists>s' t'. bindE (session_send ops header) (\<lambda>_. send_text ops msg) s = (Inr (), s') \<and> up s' t' \<and> good t' \<and>
    sent t' = sent t @ header @ map byte_of_char msg \<and> pending t' = pending t"
proof -
  from send_step [OF assms, of header] obtain t1 where
    h: "session_send ops header s = (Inr (length header), s\<lparr>s_transport := Some t1\<rparr>)"
      "up (s\<lparr>s_transport := Some t1\<rparr>) t1" "good t1" "sent t1 = sent t @ header" "pending t1 = pending t" by blast
  from send_text_stream [OF h(2,3), of msg] h(1,4,5) show ?thesis by (simp add: bindE_def)
qed

lemma send_loop_stream:
  assumes "up s t" and "good t" and "files f path = Some content"
    and "unat offset + unat payload_size \<le> length content" and "so_far \<le> payload_size"
  shows "\<exists>s' t'. send_loop ops fs path offset payload_size so_far f s = (Inr (), payload_size, s') \<and> up s' t' \<and> good t' \<and>
    sent t' = sent t @ take (unat payload_size - unat so_far) (drop (unat offset + unat so_far) content) \<and>
    pending t' = pending t"
  using assms
proof (induction "unat (payload_size - so_far)" arbitrary: so_far s t rule: less_induct)
  case less
  show ?case
  proof (cases "so_far < payload_size")
    case False
    with less.prems(5) have "so_far = payload_size" by simp
    with less.prems show ?thesis by (subst send_loop.simps) auto
  next
    case True
    define chunk where "chunk = min (unat (payload_size - so_far)) kChunkBytes"
    define bytes where "bytes = take chunk (fs_read fs path (unat offset + unat so_far) chunk f)"
    have d: "unat (payload_size - so_far) = unat payload_size - unat so_far" using count_up(2) [OF True, of 0] by simp
    have lt: "unat so_far < unat payload_size" using True by (simp add: word_less_nat_alt)
    have bytes_eq: "bytes = take chunk (drop (unat offset + unat so_far) content)"
      by (simp add: bytes_def read_law [OF less.prems(3)])
    have "chunk \<le> length content - (unat offset + unat so_far)" using less.prems(4) lt d by (simp add: chunk_def)
    then have len: "length bytes = chunk" "chunk \<le> unat (payload_size - so_far)" "0 < chunk"
      using lt d by (simp_all add: bytes_eq) (simp_all add: chunk_def kChunkBytes_def)
    have up: "unat (so_far + of_nat chunk) = unat so_far + chunk" "unat so_far + chunk \<le> unat payload_size"
      using count_up [OF True len(2)] by simp_all
    from send_step [OF less.prems(1,2), of bytes] obtain t1 where
      b: "session_send ops bytes s = (Inr (length bytes), s\<lparr>s_transport := Some t1\<rparr>)"
        "up (s\<lparr>s_transport := Some t1\<rparr>) t1" "good t1" "sent t1 = sent t @ bytes" "pending t1 = pending t" by blast
    have le: "so_far + of_nat chunk \<le> payload_size" using up by (simp add: word_le_nat_alt)
    from less.hyps [OF count_down [OF True len(3,2)] b(2,3) less.prems(3,4) le] obtain s' t' where
      i: "send_loop ops fs path offset payload_size (so_far + of_nat chunk) f (s\<lparr>s_transport := Some t1\<rparr>) =
            (Inr (), payload_size, s')" "up s' t'" "good t'" "pending t' = pending t1"
        "sent t' = sent t1 @ take (unat payload_size - unat (so_far + of_nat chunk))
           (drop (unat offset + unat (so_far + of_nat chunk)) content)" by blast
    have step: "send_loop ops fs path offset payload_size so_far f s =
        send_loop ops fs path offset payload_size (so_far + of_nat chunk) f (s\<lparr>s_transport := Some t1\<rparr>)"
    proof -
      have "bytes \<noteq> []" using len by auto
      with True b(1) len(1) show ?thesis
        unfolding send_loop.simps [of ops fs path offset payload_size so_far f s] Let_def
          chunk_def [symmetric] bytes_def [symmetric] by simp
    qed
    have "take (unat payload_size - unat so_far) (drop (unat offset + unat so_far) content) =
        bytes @ take (unat payload_size - (unat so_far + chunk)) (drop (unat offset + (unat so_far + chunk)) content)"
      unfolding bytes_eq using up(2) take_add [of chunk "unat payload_size - (unat so_far + chunk)" "drop (unat offset + unat so_far) content"]
      by (simp add: ac_simps)
    with i b step up show ?thesis by auto
  qed
qed

lemma send_file_range_stream:
  assumes "connect_session ops ''hyperlink-file'' (new_session t0) = (Inr (), s)" and "up s t" and "good t"
    and "fs_readable fs path f" and "files f path = Some content" and "seekable offset"
    and "unat offset + unat payload_size \<le> length content"
  shows "\<exists>s' t'. send_file_range ops fs options path name total_size offset payload_size f t0 =
      (\<lparr>sr_bytes = payload_size, sr_error = None\<rparr>, session_close ops s') \<and> up s' t' \<and> good t' \<and>
    sent t' = sent t @ make_header (if o_parallel options > 1 then FilePart else File) payload_size
        (of_nat (length name)) offset total_size @ map byte_of_char name @
      take (unat payload_size) (drop (unat offset) content)"
proof -
  let ?header = "make_header (if o_parallel options > 1 then FilePart else File) payload_size
        (of_nat (length name)) offset total_size"
  from send_header_stream [OF assms(2,3), of ?header name] obtain s1 t1 where
    h: "bindE (session_send ops ?header) (\<lambda>_. send_text ops name) s = (Inr (), s1)" "up s1 t1" "good t1"
      "sent t1 = sent t @ ?header @ map byte_of_char name" by blast
  from send_loop_stream [OF h(2,3) assms(5,7), of 0] obtain s2 t2 where
    l: "send_loop ops fs path offset payload_size 0 f s1 = (Inr (), payload_size, s2)" "up s2 t2" "good t2"
      "sent t2 = sent t1 @ take (unat payload_size) (drop (unat offset) content)" by auto
  have "send_file_range ops fs options path name total_size offset payload_size f t0 =
      (\<lparr>sr_bytes = payload_size, sr_error = None\<rparr>, session_close ops s2)"
    using assms(1,4,6) h(1) l(1) by (simp add: send_file_range_def Let_def result_of_def)
  moreover have "sent t2 = sent t @ ?header @ map byte_of_char name @ take (unat payload_size) (drop (unat offset) content)"
    by (simp add: l(4) h(4))
  ultimately show ?thesis using l(2,3) by blast
qed

end

section \<open>Sending a file\<close>

text \<open>The message of a stream: its header, the name, and its slice of the file.\<close>

definition file_message :: "string \<Rightarrow> byte list \<Rightarrow> u32 \<Rightarrow> u32 \<Rightarrow> byte list" where
  "file_message name content parallel stream =
     (case byte_range_for_stream (of_nat (length content)) stream parallel of (offset, bytes) \<Rightarrow>
        make_header (if parallel > 1 then FilePart else File) bytes (of_nat (length name)) offset
          (of_nat (length content)) @
        map byte_of_char name @ stream_slice content stream parallel)"

lemma total_bytes_sum: "total_bytes results = sum_list (map sr_bytes results)"
proof -
  have "foldl (\<lambda>bytes result. bytes + sr_bytes result) b results = b + sum_list (map sr_bytes results)" for b
    by (induction results arbitrary: b) (simp_all add: add.assoc)
  then show ?thesis by (simp add: total_bytes_def)
qed

lemma rethrow_first_error_None: "\<forall>r \<in> set results. sr_error r = None \<Longrightarrow> rethrow_first_error results = Inr ()"
  by (induction results) auto

lemma in_streams: "stream \<in> set (streams options) \<longleftrightarrow> stream < o_parallel options"
proof
  assume "stream < o_parallel options"
  then have "unat stream \<in> set [0..<unat (o_parallel options)]" by (simp add: word_less_nat_alt)
  then have "of_nat (unat stream) \<in> set (streams options)" unfolding streams_def set_map by (rule imageI)
  then show "stream \<in> set (streams options)" by simp
next
  assume "stream \<in> set (streams options)"
  then obtain i where "i < unat (o_parallel options)" "stream = of_nat i" by (auto simp: streams_def)
  moreover from this have "i < 2 ^ 32" using unat_less_power [of "o_parallel options"] by simp
  ultimately show "stream < o_parallel options" by (simp add: word_less_nat_alt)
qed

lemma sum_range_sizes:
  assumes "whole < 2 ^ 64" and "o_parallel options \<noteq> 0"
  shows "sum_list (map (\<lambda>stream. snd (byte_range_for_stream (of_nat whole) stream (o_parallel options))) (streams options)) =
    (of_nat whole :: u64)"
proof -
  let ?p = "unat (o_parallel options)" and ?range = "\<lambda>i. byte_range_for_stream (of_nat whole) (of_nat i) (o_parallel options)"
  have w: "unat (of_nat whole :: u64) = whole" using assms(1) by (intro unat_of_nat_small) simp
  have "snd (?range i) = of_nat (range_start whole ?p (Suc i) - range_start whole ?p i)" if "i < ?p" for i
  proof -
    have u: "unat (of_nat i :: u32) = i" using that unat_less_power [of "o_parallel options"] by (intro unat_of_nat_small) simp
    then have "of_nat i < o_parallel options" using that by (simp add: word_less_nat_alt)
    from byte_range_nat(2) [OF this, of "of_nat whole"] u w
    have "unat (snd (?range i)) = range_start whole ?p (Suc i) - range_start whole ?p i" by (simp add: range_start_Suc)
    then have "of_nat (unat (snd (?range i))) = (of_nat (range_start whole ?p (Suc i) - range_start whole ?p i) :: u64)"
      by (simp only:)
    then show ?thesis by simp
  qed
  then have "map (\<lambda>i. snd (?range i)) [0..<?p] =
      map (\<lambda>i. of_nat (range_start whole ?p (Suc i) - range_start whole ?p i)) [0..<?p]"
    by (intro map_cong) auto
  moreover have "sum_list (map (\<lambda>i. of_nat (range_start whole ?p (Suc i) - range_start whole ?p i)) [0..<n]) =
      (of_nat (range_start whole ?p n) :: u64)" for n
  proof (induction n)
    case (Suc n)
    have "range_start whole ?p n \<le> range_start whole ?p (Suc n)" by (rule range_start_mono) simp
    then have "of_nat (range_start whole ?p n) + of_nat (range_start whole ?p (Suc n) - range_start whole ?p n) =
        (of_nat (range_start whole ?p (Suc n)) :: u64)" by (metis le_add_diff_inverse of_nat_add)
    with Suc show ?case by simp
  qed simp
  ultimately have "sum_list (map (\<lambda>i. snd (?range i)) [0..<?p]) = (of_nat (range_start whole ?p ?p) :: u64)"
    by (simp only:)
  with assms(2) show ?thesis by (simp add: streams_def o_def range_start_all unat_gt_0)
qed

context file_transfer
begin

lemma send_stream_message:
  assumes "connect_session ops ''hyperlink-file'' (new_session t0) = (Inr (), s)" and "up s t" and "good t" and "sent t = []"
    and "fs_readable fs path f" and "files f path = Some content" and "length content < 2 ^ 63"
    and "stream < o_parallel options"
  shows "\<exists>s' t'. (case byte_range_for_stream (of_nat (length content)) stream (o_parallel options) of
        (offset, bytes) \<Rightarrow> send_file_range ops fs options path name (of_nat (length content)) offset bytes f t0) =
      (\<lparr>sr_bytes = snd (byte_range_for_stream (of_nat (length content)) stream (o_parallel options)), sr_error = None\<rparr>,
       session_close ops s') \<and>
    up s' t' \<and> sent t' = file_message name content (o_parallel options) stream"
proof -
  let ?r = "byte_range_for_stream (of_nat (length content)) stream (o_parallel options)"
  have w: "unat (of_nat (length content) :: u64) = length content" using assms(7) by (intro unat_of_nat_small) simp
  note n = byte_range_nat [OF assms(8), of "of_nat (length content)", unfolded w]
  have "range_start (length content) (unat (o_parallel options)) (Suc (unat stream)) \<le> length content"
    using assms(8) by (intro range_start_le) (auto simp: word_less_nat_alt)
  then have le: "unat (fst ?r) + unat (snd ?r) \<le> length content" using n by (simp add: range_start_Suc split: if_splits)
  then have "seekable (fst ?r)" using assms(7) by (simp add: seekable_def)
  from send_file_range_stream [OF assms(1-3,5,6) this le, of options name "of_nat (length content)"] obtain s' t' where
    "send_file_range ops fs options path name (of_nat (length content)) (fst ?r) (snd ?r) f t0 =
      (\<lparr>sr_bytes = snd ?r, sr_error = None\<rparr>, session_close ops s')" "up s' t'"
    "sent t' = file_message name content (o_parallel options) stream"
    by (auto simp: file_message_def stream_slice_def case_prod_unfold assms(4))
  then show ?thesis by (intro exI [of _ s'] exI [of _ t']) (simp add: case_prod_unfold)
qed

lemma run_send_file:
  assumes "\<not> o_auto_discover options" and "o_parallel options \<noteq> 0"
    and "fs_exists fs (o_file options) f" and "\<not> fs_is_directory fs (o_file options) f"
    and "fs_is_regular_file fs (o_file options) f" and "fs_readable fs (o_file options) f"
    and "files f (o_file options) = Some content" and "length content < 2 ^ 63"
    and "fs_file_size fs (o_file options) f = Inr (of_nat (length content))"
    and "safe_file_name (if o_remote_name options = [] then filename (o_file options) else o_remote_name options) = Inr name"
    and "\<And>stream. stream < o_parallel options \<Longrightarrow>
      connect_session ops ''hyperlink-file'' (new_session (connection (endpoint_for_stream options stream))) =
        (Inr (), session_at stream) \<and>
      s_connected (session_at stream) \<and> s_transport (session_at stream) = Some (link stream) \<and>
      good (link stream) \<and> sent (link stream) = []"
  shows "\<exists>sessions. run_send ops fs popen select connection options f =
      (Inr (of_nat (length content)), map (session_close ops) sessions) \<and>
    length sessions = unat (o_parallel options) \<and>
    (\<forall>i < unat (o_parallel options). \<exists>t. s_transport (sessions ! i) = Some t \<and>
       sent t = file_message name content (o_parallel options) (of_nat i))"
proof -
  let ?p = "o_parallel options" and ?n = "of_nat (length content) :: u64"
  let ?thread = "\<lambda>stream. case byte_range_for_stream ?n stream ?p of (offset, bytes) \<Rightarrow>
      send_file_range ops fs options (o_file options) name ?n offset bytes f (connection (endpoint_for_stream options stream))"
  have "\<exists>s' t'. ?thread stream = (\<lparr>sr_bytes = snd (byte_range_for_stream ?n stream ?p), sr_error = None\<rparr>, session_close ops s') \<and>
      up s' t' \<and> sent t' = file_message name content ?p stream" if "stream < ?p" for stream
    using send_stream_message [OF _ _ _ _ assms(6-8) that, of _ "session_at stream" "link stream"]
      assms(11) [OF that] by (simp add: up_def)
  then obtain S where S: "?thread stream = (\<lparr>sr_bytes = snd (byte_range_for_stream ?n stream ?p), sr_error = None\<rparr>, session_close ops (S stream)) \<and>
      (\<exists>t'. up (S stream) t' \<and> sent t' = file_message name content ?p stream)" if "stream < ?p" for stream
    by metis
  let ?threads = "map ?thread (streams options)"
  have threads: "?threads = map (\<lambda>stream. (\<lparr>sr_bytes = snd (byte_range_for_stream ?n stream ?p), sr_error = None\<rparr>,
      session_close ops (S stream))) (streams options)"
    using S by (intro map_cong refl) (simp add: in_streams)
  have "sum_list (map (\<lambda>stream. snd (byte_range_for_stream ?n stream ?p)) (streams options)) = ?n"
    using sum_range_sizes [of "length content" options] assms(2,8) by simp
  then have "join_results (map fst ?threads) = Inr ?n"
    unfolding threads join_results_def by (simp add: rethrow_first_error_None total_bytes_sum o_def)
  moreover have "map snd ?threads = map (session_close ops) (map S (streams options))"
    unfolding threads by simp
  ultimately have "run_send ops fs popen select connection options f = (Inr ?n, map (session_close ops) (map S (streams options)))"
    using assms(1,3,4,5,9,10) by (simp add: run_send_def effective_options_def Let_def)
  moreover have "\<exists>t. s_transport (map S (streams options) ! i) = Some t \<and> sent t = file_message name content ?p (of_nat i)"
    if "i < unat ?p" for i
  proof -
    have "of_nat i \<in> set (streams options)" using that by (auto simp: streams_def)
    then have "of_nat i < ?p" by (simp only: in_streams)
    from S [OF this] that show ?thesis by (auto simp: streams_def up_def)
  qed
  ultimately show ?thesis by (intro exI [of _ "map S (streams options)"]) (simp add: streams_def)
qed

end

text \<open>
  C4. Sending a file. Take a regular file of less than $2^{63}$ bytes, a name that passes the check and
  any number of streams whose connections come up and stay up. Then \<^verbatim>\<open>run_send\<close> returns the
  size of the file, and stream \<open>i\<close> has sent exactly the message of its range: header, name
  and slice, before its session was closed.
\<close>

theorem run_send_sends_file:
  assumes "file_transfer ops invar sent pending good fs files"
    and "\<not> o_auto_discover options" and "o_parallel options \<noteq> 0"
    and "fs_exists fs (o_file options) f" and "\<not> fs_is_directory fs (o_file options) f"
    and "fs_is_regular_file fs (o_file options) f" and "fs_readable fs (o_file options) f"
    and "files f (o_file options) = Some content" and "length content < 2 ^ 63"
    and "fs_file_size fs (o_file options) f = Inr (of_nat (length content))"
    and "safe_file_name (if o_remote_name options = [] then filename (o_file options) else o_remote_name options) = Inr name"
    and "\<And>stream. stream < o_parallel options \<Longrightarrow>
      connect_session ops ''hyperlink-file'' (new_session (connection (endpoint_for_stream options stream))) =
        (Inr (), session_at stream) \<and>
      s_connected (session_at stream) \<and> s_transport (session_at stream) = Some (link stream) \<and>
      good (link stream) \<and> sent (link stream) = []"
  shows "\<exists>sessions. run_send ops fs popen select connection options f =
      (Inr (of_nat (length content)), map (session_close ops) sessions) \<and>
    length sessions = unat (o_parallel options) \<and>
    (\<forall>i < unat (o_parallel options). \<exists>t. s_transport (sessions ! i) = Some t \<and>
       sent t = file_message name content (o_parallel options) (of_nat i))"
  by (rule file_transfer.run_send_file [OF assms(1) assms(2-11)]) (rule assms(12))

section \<open>The in-memory instance\<close>

interpretation mem_transfer: file_transfer "tcp_ops mem_api" "tcp_inv mw_open" mem.tcp_sent mem.tcp_pending
  mem.tcp_good mem_fs "\<lambda>f. f"
  by (intro file_transfer.intro mem.tcp_up.reliable_stream_axioms mem_store.file_store_axioms)

definition mem_client :: "TcpEndpoint \<Rightarrow> mem_world tcp" where
  "mem_client endpoint = (make_tcp_client_transport endpoint, mem_start)"

definition connected_client :: "TcpEndpoint \<Rightarrow> mem_world tcp" where
  "connected_client endpoint = ((make_tcp_client_transport endpoint)\<lparr>tt_data_socket := 3\<rparr>,
     mem_start\<lparr>mw_next := 4, mw_open := {0, 1, 2, 3}\<rparr>)"

lemma mem_client_connects:
  "connect_session (tcp_ops mem_api) name (new_session (mem_client endpoint)) =
     (Inr (), \<lparr>s_transport = Some (connected_client endpoint), s_connected = True\<rparr>)"
proof -
  obtain c where c: "negotiate default_options default_options name = Inr c"
    using negotiate_Inr_iff [of default_options default_options name] by auto
  have fds: "insert 3 {0, 1, 2} = {0, 1, 2, 3 :: int}" by auto
  show ?thesis
    by (simp add: connect_session_def bindE_def session_discover_def new_session_def mem_client_def tcp_ops_def
        tcp_discover_def Let_def session_connect_def c liftE_def tcp_connect_def make_tcp_client_transport_def
        connect_socket_def resolve_endpoint_def mem_api_def mem_fresh_def mem_start_def tune_socket_def
        set_socket_buffer_def set_no_delay_def handle_reset_def kInvalidSocket_def connected_client_def fds)
qed

lemma connected_client_good: "mem.tcp_good (connected_client endpoint)" "mem.tcp_sent (connected_client endpoint) = []"
  by (auto simp: mem.tcp_good_def mem.tcp_sent_def connected_client_def tcp_inv_def held_def
      make_tcp_client_transport_def kInvalidSocket_def mem_start_def)

definition two_streams :: Options where
  "two_streams = default_transfer_options\<lparr>o_send := True, o_file := ''a/b.bin'', o_parallel := 2\<rparr>"

definition seven_bytes :: "byte list" where
  "seven_bytes = [1, 2, 3, 4, 5, 6, 7]"

theorem run_send_sends_file_witness:
  "\<exists>sessions. run_send (tcp_ops mem_api) mem_fs (\<lambda>_. None) (\<lambda>_. Inl no_peer) mem_client two_streams
      [''a/b.bin'' \<mapsto> seven_bytes] = (Inr 7, map (session_close (tcp_ops mem_api)) sessions) \<and>
    length sessions = 2 \<and>
    (\<exists>t. s_transport (sessions ! 1) = Some t \<and>
       mem.tcp_sent t = make_header FilePart 3 5 4 7 @ map byte_of_char ''b.bin'' @ [5, 6, 7])"
proof -
  let ?o = two_streams and ?f = "[''a/b.bin'' \<mapsto> seven_bytes]"
  have o: "o_parallel ?o = 2" "o_file ?o = ''a/b.bin''" "o_remote_name ?o = []" "\<not> o_auto_discover ?o"
    by (simp_all add: two_streams_def default_transfer_options_def)
  have name: "safe_file_name (if o_remote_name ?o = [] then filename (o_file ?o) else o_remote_name ?o) = Inr ''b.bin''"
    by (simp add: o safe_file_name_def filename_def)
  have st: "o_parallel ?o \<noteq> 0" "fs_exists mem_fs (o_file ?o) ?f" "\<not> fs_is_directory mem_fs (o_file ?o) ?f"
    "fs_is_regular_file mem_fs (o_file ?o) ?f" "fs_readable mem_fs (o_file ?o) ?f"
    "?f (o_file ?o) = Some seven_bytes" "length seven_bytes < 2 ^ 63"
    "fs_file_size mem_fs (o_file ?o) ?f = Inr (of_nat (length seven_bytes))"
    by (simp_all add: o mem_fs_def seven_bytes_def)
  have range: "byte_range_for_stream 7 1 2 = (4, 3)"
    by (simp add: byte_range_for_stream_def Let_def min_def word_le_nat_alt)
  have msg: "file_message ''b.bin'' seven_bytes 2 1 = make_header FilePart 3 5 4 7 @ map byte_of_char ''b.bin'' @ [5, 6, 7]"
    unfolding file_message_def stream_slice_def seven_bytes_def using range by simp
  let ?link = "\<lambda>stream. connected_client (endpoint_for_stream ?o stream)"
  have links: "connect_session (tcp_ops mem_api) ''hyperlink-file'' (new_session (mem_client (endpoint_for_stream ?o stream))) =
        (Inr (), \<lparr>s_transport = Some (?link stream), s_connected = True\<rparr>) \<and>
      s_connected \<lparr>s_transport = Some (?link stream), s_connected = True\<rparr> \<and>
      s_transport \<lparr>s_transport = Some (?link stream), s_connected = True\<rparr> = Some (?link stream) \<and>
      mem.tcp_good (?link stream) \<and> mem.tcp_sent (?link stream) = []" for stream
    by (simp add: mem_client_connects connected_client_good)
  from run_send_sends_file [where connection = mem_client and link = ?link
      and session_at = "\<lambda>stream. \<lparr>s_transport = Some (?link stream), s_connected = True\<rparr>"
      and popen = "\<lambda>_. None" and select = "\<lambda>_. Inl no_peer",
      OF mem_transfer.file_transfer_axioms o(4) st name links]
  obtain sessions where S: "run_send (tcp_ops mem_api) mem_fs (\<lambda>_. None) (\<lambda>_. Inl no_peer) mem_client ?o ?f =
      (Inr (of_nat (length seven_bytes)), map (session_close (tcp_ops mem_api)) sessions)"
    "length sessions = unat (o_parallel ?o)"
    "\<forall>i < unat (o_parallel ?o). \<exists>t. s_transport (sessions ! i) = Some t \<and>
       mem.tcp_sent t = file_message ''b.bin'' seven_bytes (o_parallel ?o) (of_nat i)" by blast
  from S(3) [rule_format, of 1] have "\<exists>t. s_transport (sessions ! 1) = Some t \<and>
      mem.tcp_sent t = make_header FilePart 3 5 4 7 @ map byte_of_char ''b.bin'' @ [5, 6, 7]"
    by (simp only: o msg of_nat_1) simp
  moreover have "of_nat (length seven_bytes) = (7 :: u64)" by (simp add: seven_bytes_def)
  moreover have "length sessions = 2" using S(2) by (simp add: o)
  ultimately show ?thesis using S(1) by metis
qed

end
