(* ===== verification/Bench.thy ===== *)
theory Bench
  imports File_Sender
begin

text \<open>
  The throughput benchmark (\<^verbatim>\<open>examples/bench.cpp\<close>): its command line and the streams of the
  server, which counts what it receives until the peer closes, and of the client, which
  sends until its deadline. The clock the client reads is a state with a reading function.
  Durations are nanoseconds and rates are reals.
\<close>

section \<open>Options\<close>

record BenchOptions =
  b_server :: bool
  b_host :: string
  b_port :: u16
  b_seconds :: u32
  b_parallel :: u32
  b_socket_buffer_bytes :: u32
  b_chunk_bytes :: u64

definition default_bench_options :: BenchOptions where
  "default_bench_options = \<lparr>b_server = False, b_host = ''127.0.0.1'', b_port = 47777, b_seconds = 10, b_parallel = 1,
     b_socket_buffer_bytes = 0, b_chunk_bytes = 1024 * 1024\<rparr>"

definition stoull :: "string \<Rightarrow> u64 result" where
  "stoull s = (case stoul s of
     Inl (Out_of_range _) \<Rightarrow> Inl (Out_of_range ''stoull'')
   | Inl _ \<Rightarrow> Inl (Invalid_argument ''stoull'')
   | Inr n \<Rightarrow> Inr n)"

definition bench_flag :: "string \<Rightarrow> BenchOptions \<Rightarrow> BenchOptions option" where
  "bench_flag arg options =
     (if arg = ''--server'' then Some (options\<lparr>b_server := True, b_host := ''0.0.0.0''\<rparr>)
      else if arg = ''--client'' then Some (options\<lparr>b_server := False\<rparr>)
      else None)"

definition bench_takes_value :: "string \<Rightarrow> bool" where
  "bench_takes_value arg \<longleftrightarrow> arg \<in> {''--host'', ''--port'', ''--seconds'', ''--parallel'', ''--chunk-bytes'', ''--socket-buffer-bytes''}"

definition bench_value :: "string \<Rightarrow> string \<Rightarrow> BenchOptions \<Rightarrow> BenchOptions result" where
  "bench_value arg val options =
     (if arg = ''--host'' then Inr (options\<lparr>b_host := val\<rparr>)
      else if arg = ''--port''
      then case parse_port val of Inl e \<Rightarrow> Inl e | Inr port \<Rightarrow> Inr (options\<lparr>b_port := port\<rparr>)
      else if arg = ''--seconds''
      then case stoul val of
             Inl e \<Rightarrow> Inl e
           | Inr n \<Rightarrow> if (ucast n :: u32) = 0 then Inl (Invalid_argument ''seconds must be positive'')
                      else Inr (options\<lparr>b_seconds := ucast n\<rparr>)
      else if arg = ''--parallel''
      then case parse_parallel val of Inl e \<Rightarrow> Inl e | Inr n \<Rightarrow> Inr (options\<lparr>b_parallel := n\<rparr>)
      else if arg = ''--chunk-bytes''
      then case stoull val of
             Inl e \<Rightarrow> Inl e
           | Inr n \<Rightarrow> if n = 0 then Inl (Invalid_argument ''chunk-bytes must be positive'') else Inr (options\<lparr>b_chunk_bytes := n\<rparr>)
      else case stoul val of Inl e \<Rightarrow> Inl e | Inr n \<Rightarrow> Inr (options\<lparr>b_socket_buffer_bytes := ucast n\<rparr>))"

fun bench_loop :: "string list \<Rightarrow> BenchOptions \<Rightarrow> BenchOptions option result" where
  "bench_loop [] options = Inr (Some options)"
| "bench_loop (arg # args) options =
     (case bench_flag arg options of
        Some options' \<Rightarrow> bench_loop args options'
      | None \<Rightarrow>
          if bench_takes_value arg
          then case args of
                 [] \<Rightarrow> Inl (requires_value arg)
               | val # rest \<Rightarrow>
                   (case bench_value arg val options of Inl e \<Rightarrow> Inl e | Inr options' \<Rightarrow> bench_loop rest options')
          else if arg = ''--help'' \<or> arg = ''-h'' then Inr None
          else Inl (Invalid_argument (''unknown argument: '' @ arg)))"

text \<open>The range check of the ports is computed in 32 bits.\<close>

definition bench_parse_args :: "string list \<Rightarrow> BenchOptions option result" where
  "bench_parse_args argv =
     (case bench_loop argv default_bench_options of
        Inl e \<Rightarrow> Inl e
      | Inr None \<Rightarrow> Inr None
      | Inr (Some options) \<Rightarrow>
          if (ucast (b_port options) :: u32) + b_parallel options - 1 > 65535
          then Inl (Invalid_argument ''port plus parallel stream count exceeds 65535'')
          else Inr (Some options))"

section \<open>Streams\<close>

definition bench_endpoint_for_stream :: "BenchOptions \<Rightarrow> u32 \<Rightarrow> TcpEndpoint" where
  "bench_endpoint_for_stream options stream =
     \<lparr>te_host = b_host options, te_port = ucast ((ucast (b_port options) :: u32) + stream),
      te_send_buffer_bytes = b_socket_buffer_bytes options, te_receive_buffer_bytes = b_socket_buffer_bytes options\<rparr>"

record BenchResult =
  br_bytes :: u64
  br_elapsed :: int
  br_error :: "exn option"

fun bench_rethrow_first_error :: "BenchResult list \<Rightarrow> unit result" where
  "bench_rethrow_first_error [] = Inr ()"
| "bench_rethrow_first_error (r # rs) = (case br_error r of Some e \<Rightarrow> Inl e | None \<Rightarrow> bench_rethrow_first_error rs)"

definition max_elapsed :: "BenchResult list \<Rightarrow> int" where
  "max_elapsed results = foldl (\<lambda>elapsed r. if br_elapsed r > elapsed then br_elapsed r else elapsed) 0 results"

definition bench_total_bytes :: "BenchResult list \<Rightarrow> u64" where
  "bench_total_bytes results = foldl (\<lambda>bytes r. bytes + br_bytes r) 0 results"

definition gib_per_second :: "u64 \<Rightarrow> real \<Rightarrow> real" where
  "gib_per_second bytes elapsed =
     (if elapsed = 0 then 0 else real (unat bytes) / (1024 * 1024 * 1024) / elapsed)"

definition gbits_per_second :: "u64 \<Rightarrow> real \<Rightarrow> real" where
  "gbits_per_second bytes elapsed =
     (if elapsed = 0 then 0 else real (unat bytes) * 8 / 1000000000 / elapsed)"

text \<open>
  The server's loop ends when the peer has closed; the counter keeps what was received
  before an error.
\<close>

partial_function (option) server_loop ::
  "'t transport_ops \<Rightarrow> nat \<Rightarrow> u64 \<Rightarrow> 't session \<Rightarrow> (unit result \<times> u64 \<times> 't session) option" where
  "server_loop ops chunk_bytes bytes s =
     (case session_receive_into ops chunk_bytes s of
        (Inl e, s') \<Rightarrow> Some (Inl e, bytes, s')
      | (Inr data, s') \<Rightarrow>
          if data = [] then Some (Inr (), bytes, s')
          else server_loop ops chunk_bytes (bytes + of_nat (length data)) s')"

definition server_stream ::
  "'t transport_ops \<Rightarrow> ('c \<Rightarrow> int \<times> 'c) \<Rightarrow> BenchOptions \<Rightarrow> 't \<Rightarrow> 'c \<Rightarrow> (BenchResult \<times> 't session \<times> 'c) option" where
  "server_stream ops now options t c =
     (case connect_session ops ''hyperlink-bench'' (new_session t) of
        (Inl e, s) \<Rightarrow> Some (\<lparr>br_bytes = 0, br_elapsed = 0, br_error = Some e\<rparr>, session_close ops s, c)
      | (Inr _, s) \<Rightarrow>
          (case now c of (started, c1) \<Rightarrow>
           case server_loop ops (unat (b_chunk_bytes options)) 0 s of
             None \<Rightarrow> None
           | Some (Inl e, bytes, s') \<Rightarrow>
               Some (\<lparr>br_bytes = bytes, br_elapsed = 0, br_error = Some e\<rparr>, session_close ops s', c1)
           | Some (Inr _, bytes, s') \<Rightarrow>
               (case now c1 of (finished, c2) \<Rightarrow>
                  Some (\<lparr>br_bytes = bytes, br_elapsed = finished - started, br_error = None\<rparr>, session_close ops s', c2))))"

partial_function (option) client_loop ::
  "'t transport_ops \<Rightarrow> ('c \<Rightarrow> int \<times> 'c) \<Rightarrow> byte list \<Rightarrow> int \<Rightarrow> u64 \<Rightarrow> 't session \<Rightarrow> 'c \<Rightarrow>
   (unit result \<times> u64 \<times> 't session \<times> 'c) option" where
  "client_loop ops now payload deadline bytes s c =
     (case now c of (time, c1) \<Rightarrow>
      if time < deadline
      then case session_send ops payload s of
             (Inl e, s') \<Rightarrow> Some (Inl e, bytes, s', c1)
           | (Inr n, s') \<Rightarrow> client_loop ops now payload deadline (bytes + of_nat n) s' c1
      else Some (Inr (), bytes, s, c1))"

definition client_stream ::
  "'t transport_ops \<Rightarrow> ('c \<Rightarrow> int \<times> 'c) \<Rightarrow> BenchOptions \<Rightarrow> 't \<Rightarrow> 'c \<Rightarrow> (BenchResult \<times> 't session \<times> 'c) option" where
  "client_stream ops now options t c =
     (case connect_session ops ''hyperlink-bench'' (new_session t) of
        (Inl e, s) \<Rightarrow> Some (\<lparr>br_bytes = 0, br_elapsed = 0, br_error = Some e\<rparr>, session_close ops s, c)
      | (Inr _, s) \<Rightarrow>
          (case now c of (started, c1) \<Rightarrow>
           case client_loop ops now (replicate (unat (b_chunk_bytes options)) 0xA5)
                  (started + int (unat (b_seconds options)) * 1000000000) 0 s c1 of
             None \<Rightarrow> None
           | Some (Inl e, bytes, s', c2) \<Rightarrow>
               Some (\<lparr>br_bytes = bytes, br_elapsed = 0, br_error = Some e\<rparr>, session_close ops s', c2)
           | Some (Inr _, bytes, s', c2) \<Rightarrow>
               (let closed = session_close ops s' in
                case now c2 of (finished, c3) \<Rightarrow>
                  Some (\<lparr>br_bytes = bytes, br_elapsed = finished - started, br_error = None\<rparr>, closed, c3))))"

text \<open>What \<^verbatim>\<open>run_server\<close> and \<^verbatim>\<open>run_client\<close> report once all streams have ended.\<close>

definition bench_report :: "BenchResult list \<Rightarrow> (u64 \<times> int) result" where
  "bench_report results =
     map_sum id (\<lambda>_. (bench_total_bytes results, max_elapsed results)) (bench_rethrow_first_error results)"

definition bench_streams :: "BenchOptions \<Rightarrow> u32 list" where
  "bench_streams options = map of_nat [0..<unat (b_parallel options)]"

definition run_server ::
  "'t transport_ops \<Rightarrow> ('c \<Rightarrow> int \<times> 'c) \<Rightarrow> (TcpEndpoint \<Rightarrow> 't) \<Rightarrow> (u32 \<Rightarrow> 'c) \<Rightarrow> BenchOptions \<Rightarrow> (u64 \<times> int) result option" where
  "run_server ops now connection clock options =
     map_option (\<lambda>threads. bench_report (map fst threads))
       (those (map (\<lambda>stream. server_stream ops now options (connection (bench_endpoint_for_stream options stream)) (clock stream))
          (bench_streams options)))"

definition run_client ::
  "'t transport_ops \<Rightarrow> ('c \<Rightarrow> int \<times> 'c) \<Rightarrow> (TcpEndpoint \<Rightarrow> 't) \<Rightarrow> (u32 \<Rightarrow> 'c) \<Rightarrow> BenchOptions \<Rightarrow> (u64 \<times> int) result option" where
  "run_client ops now connection clock options =
     map_option (\<lambda>threads. bench_report (map fst threads))
       (those (map (\<lambda>stream. client_stream ops now options (connection (bench_endpoint_for_stream options stream)) (clock stream))
          (bench_streams options)))"

text \<open>The exit status of the program, with the two runs as arguments.\<close>

definition bench_main :: "(BenchOptions \<Rightarrow> (u64 \<times> int) result) \<Rightarrow> (BenchOptions \<Rightarrow> (u64 \<times> int) result) \<Rightarrow> string list \<Rightarrow> int" where
  "bench_main server client argv =
     (case bench_parse_args argv of
        Inl e \<Rightarrow> 1
      | Inr None \<Rightarrow> 0
      | Inr (Some options) \<Rightarrow>
          (case (if b_server options then server options else client options) of Inl e \<Rightarrow> 1 | Inr _ \<Rightarrow> 0))"

section \<open>A client and a server\<close>

locale bench_link = reliable_stream ops invar sent pending good
  for ops :: "'t transport_ops" and invar sent pending good +
  fixes now :: "'c \<Rightarrow> int \<times> 'c"
  assumes advances: "fst (now c) < fst (now (snd (now c)))"
begin

lemma client_loop_sends:
  assumes "up s t" and "good t"
  shows "\<exists>k s' t' c'. client_loop ops now payload deadline bytes s c =
      Some (Inr (), bytes + of_nat (k * length payload), s', c') \<and> up s' t' \<and>
    sent t' = sent t @ concat (replicate k payload) \<and> deadline < fst (now c')"
  using assms
proof (induction "nat (deadline - fst (now c))" arbitrary: c bytes s t rule: less_induct)
  case less
  obtain time c1 where c: "now c = (time, c1)" by fastforce
  have later: "time < fst (now c1)" using advances [of c] c by simp
  show ?case
  proof (cases "time < deadline")
    case False
    with c later less.prems show ?thesis
      by (subst client_loop.simps) (auto intro!: exI [of _ "0 :: nat"])
  next
    case True
    from send_step [OF less.prems, of payload] obtain t1 where
      s: "session_send ops payload s = (Inr (length payload), s\<lparr>s_transport := Some t1\<rparr>)"
        "up (s\<lparr>s_transport := Some t1\<rparr>) t1" "good t1" "sent t1 = sent t @ payload" by blast
    have "nat (deadline - fst (now c1)) < nat (deadline - fst (now c))" using c later True by simp
    from less.hyps [OF this s(2,3), of "bytes + of_nat (length payload)"] obtain k s' t' c' where
      i: "client_loop ops now payload deadline (bytes + of_nat (length payload)) (s\<lparr>s_transport := Some t1\<rparr>) c1 =
          Some (Inr (), bytes + of_nat (length payload) + of_nat (k * length payload), s', c')" "up s' t'"
        "sent t' = sent t1 @ concat (replicate k payload)" "deadline < fst (now c')" by blast
    have "client_loop ops now payload deadline bytes s c = Some (Inr (), bytes + of_nat (Suc k * length payload), s', c')"
      using c True s(1) i(1) by (subst client_loop.simps) (simp add: add.assoc)
    with i s(4) show ?thesis by (intro exI [of _ "Suc k"]) auto
  qed
qed

lemma server_loop_counts:
  assumes "up s t" and "good t" and "0 < chunk_bytes"
  shows "\<exists>s'. server_loop ops chunk_bytes bytes s = Some (Inr (), bytes + of_nat (length (pending t)), s')"
  using assms
proof (induction "length (pending t)" arbitrary: bytes s t rule: less_induct)
  case less
  from receive_step [OF less.prems(1,2), of chunk_bytes] obtain bs t' where
    r: "session_receive_into ops chunk_bytes s = (Inr bs, s\<lparr>s_transport := Some t'\<rparr>)"
      "up (s\<lparr>s_transport := Some t'\<rparr>) t'" "good t'" "pending t = bs @ pending t'"
      "bs = [] \<Longrightarrow> chunk_bytes = 0 \<or> pending t = []" by blast
  show ?case
  proof (cases "bs = []")
    case True
    with r less.prems(3) show ?thesis by (subst server_loop.simps) auto
  next
    case False
    then have "length (pending t') < length (pending t)" using r(4) by simp
    from less.hyps [OF this r(2,3) less.prems(3), of "bytes + of_nat (length bs)"] r(1,4) False
    show ?thesis by (subst server_loop.simps) (auto simp: add.assoc)
  qed
qed

end

text \<open>
  C9. The benchmark measures what was transferred. If the clock advances and the connection comes up and
  stays up, a client stream ends, not before its time is over, and has
  counted, modulo $2^{64}$, exactly the bytes it sent, a whole number of chunks. A server stream that is sent these
  bytes ends when the client has closed and reports the same count, however the network splits them.
\<close>

theorem bench_counts_agree:
  assumes "reliable_stream ops invar sent pending good"
    and "\<And>c. fst (now c) < fst (now (snd (now c)))"
    and "connect_session ops ''hyperlink-bench'' (new_session t0) = (Inr (), s)"
    and "s_connected s" and "s_transport s = Some t" and "good t" and "sent t = []" and "b_chunk_bytes options \<noteq> 0"
  shows "\<exists>k s' t' elapsed c'.
    client_stream ops now options t0 c =
      Some (\<lparr>br_bytes = of_nat (k * unat (b_chunk_bytes options)), br_elapsed = elapsed, br_error = None\<rparr>, session_close ops s', c') \<and>
    s_transport s' = Some t' \<and> length (sent t') = k * unat (b_chunk_bytes options) \<and>
    int (unat (b_seconds options)) * 1000000000 < elapsed \<and>
    (\<forall>t1 s1 t2 d. connect_session ops ''hyperlink-bench'' (new_session t1) = (Inr (), s1) \<and> s_connected s1 \<and>
       s_transport s1 = Some t2 \<and> good t2 \<and> pending t2 = sent t' \<longrightarrow>
       (\<exists>elapsed' s2 d'. server_stream ops now options t1 d =
          Some (\<lparr>br_bytes = of_nat (k * unat (b_chunk_bytes options)), br_elapsed = elapsed', br_error = None\<rparr>,
             session_close ops s2, d')))"
proof -
  have L: "bench_link ops invar sent pending good now"
    by (intro bench_link.intro assms(1) bench_link_axioms.intro assms(2))
  let ?n = "unat (b_chunk_bytes options)" and ?payload = "replicate (unat (b_chunk_bytes options)) (0xA5 :: byte)"
  obtain started c1 where c: "now c = (started, c1)" by fastforce
  let ?deadline = "started + int (unat (b_seconds options)) * 1000000000"
  have "up s t" using assms(4,5) by (simp add: up_def)
  from bench_link.client_loop_sends [OF L this assms(6), of ?payload ?deadline 0 c1] obtain k s' t' c' where
    k: "client_loop ops now ?payload ?deadline 0 s c1 = Some (Inr (), of_nat (k * ?n), s', c')" "up s' t'"
      "sent t' = concat (replicate k ?payload)" "?deadline < fst (now c')" using assms(7) by auto
  have len: "length (concat (replicate k ?payload)) = k * ?n" by (induction k) simp_all
  have client: "client_stream ops now options t0 c =
      Some (\<lparr>br_bytes = of_nat (k * ?n), br_elapsed = fst (now c') - started, br_error = None\<rparr>, session_close ops s', snd (now c'))"
    using assms(3) c k(1) by (simp add: client_stream_def Let_def case_prod_unfold)
  have "\<exists>elapsed' s2 d'. server_stream ops now options t1 d =
      Some (\<lparr>br_bytes = of_nat (k * ?n), br_elapsed = elapsed', br_error = None\<rparr>, session_close ops s2, d')"
    if "connect_session ops ''hyperlink-bench'' (new_session t1) = (Inr (), s1)" "s_connected s1" "s_transport s1 = Some t2"
      "good t2" "pending t2 = sent t'" for t1 s1 t2 d
  proof -
    have "0 < ?n" using assms(8) by (simp add: unat_gt_0)
    moreover have "up s1 t2" using that by (simp add: up_def)
    ultimately have "\<exists>s2. server_loop ops ?n 0 s1 = Some (Inr (), of_nat (k * ?n), s2)"
      using bench_link.server_loop_counts [OF L _ that(4), of s1 ?n 0] that(5) k(3) len by simp
    then show ?thesis using that(1) by (auto simp: server_stream_def case_prod_unfold)
  qed
  moreover have "s_transport s' = Some t'" using k(2) by (simp add: up_def)
  ultimately show ?thesis using client k(3,4) len
    by (intro exI [of _ k] exI [of _ s'] exI [of _ t'] exI [of _ "fst (now c') - started"] exI [of _ "snd (now c')"]) simp
qed

interpretation mem_bench: bench_link "tcp_ops mem_api" "tcp_inv mw_open" mem.tcp_sent mem.tcp_pending mem.tcp_good
  "\<lambda>c :: int. (c, c + 1000000000)"
  by (intro bench_link.intro mem.tcp_up.reliable_stream_axioms bench_link_axioms.intro) simp

theorem bench_counts_agree_witness:
  "\<exists>k s' elapsed c'. client_stream (tcp_ops mem_api) (\<lambda>c :: int. (c, c + 1000000000)) default_bench_options
      (mem_client default_endpoint) 0 =
      Some (\<lparr>br_bytes = of_nat (k * 1048576), br_elapsed = elapsed, br_error = None\<rparr>, session_close (tcp_ops mem_api) s', c') \<and>
    10000000000 < elapsed"
proof -
  have b: "b_chunk_bytes default_bench_options \<noteq> 0" "unat (b_chunk_bytes default_bench_options) = 1048576"
    "int (unat (b_seconds default_bench_options)) * 1000000000 = 10000000000"
    by (simp_all add: default_bench_options_def)
  let ?now = "\<lambda>c :: int. (c, c + 1000000000)"
  have clock: "fst (?now c) < fst (?now (snd (?now c)))" for c by simp
  from bench_counts_agree [where now = ?now and c = 0 and s = "\<lparr>s_transport = Some (connected_client default_endpoint), s_connected = True\<rparr>",
      OF mem.tcp_up.reliable_stream_axioms clock mem_client_connects _ _ connected_client_good b(1)]
  show ?thesis unfolding b(2,3) by (simp del: One_nat_def) blast
qed

text \<open>
  The check of the port range is computed in 32 bits and wraps: a stream count close to
  $2^{32}$ passes it, although its ports do not exist.
\<close>

lemma bench_port_check_wraps:
  "bench_parse_args [''--parallel'', ''4294919520''] = Inr (Some (default_bench_options\<lparr>b_parallel := 4294919520\<rparr>))"
proof -
  have "stoul ''4294919520'' = Inr 4294919520"
    by (simp add: stoul_def isspace_def isdigit_def dec_value_def digit_value_def)
  then show ?thesis
    by (simp add: bench_parse_args_def bench_flag_def bench_takes_value_def bench_value_def parse_parallel_def default_bench_options_def)
qed

end
