(* ===== verification/Cli.thy ===== *)
theory Cli
  imports Bench
begin

text \<open>
  The command-line front end (\<^verbatim>\<open>examples/cli.cpp\<close>): it parses a subcommand, finds the helper
  executable and runs it through the shell. What it hands to the helpers is followed through
  the shell's word splitting into the argument parsers of the file-transfer tool and the benchmark.
\<close>

section \<open>Options\<close>

record ReceiveOptions =
  cr_host :: string
  cr_port :: string
  cr_output_dir :: string
  cr_parallel :: string
  cr_discovery_port :: string
  cr_advertise :: bool

record SendOptions =
  cs_file :: string
  cs_host :: string
  cs_port :: string
  cs_parallel :: string
  cs_discovery_port :: string
  cs_remote_name :: string

record TestOptions =
  ct_receive :: bool
  ct_send :: bool
  ct_host :: string
  ct_port :: string
  ct_parallel :: string
  ct_seconds :: string
  ct_chunk_bytes :: string
  ct_socket_buffer_bytes :: string

text \<open>
  What the program sees of its surroundings: two environment variables, which files exist,
  \<^verbatim>\<open>weakly_canonical\<close>, the current directory and the shell.
\<close>

record cli_env =
  env_HOME :: "string option"
  env_PATH :: "string option"
  env_exists :: "string \<Rightarrow> bool"
  env_weakly_canonical :: "string \<Rightarrow> string result"
  env_current_path :: string
  env_system :: "string \<Rightarrow> int"

definition default_download_dir :: "cli_env \<Rightarrow> string" where
  "default_download_dir env =
     (case env_HOME env of
        Some home \<Rightarrow> if home \<noteq> [] then join_path home ''Downloads'' else ''.''
      | None \<Rightarrow> ''.'')"

definition default_receive :: "cli_env \<Rightarrow> ReceiveOptions" where
  "default_receive env = \<lparr>cr_host = ''0.0.0.0'', cr_port = ''47790'', cr_output_dir = default_download_dir env,
     cr_parallel = ''8'', cr_discovery_port = ''47789'', cr_advertise = True\<rparr>"

definition default_send :: SendOptions where
  "default_send = \<lparr>cs_file = [], cs_host = [], cs_port = ''47790'', cs_parallel = ''8'', cs_discovery_port = ''47789'',
     cs_remote_name = []\<rparr>"

definition default_test :: TestOptions where
  "default_test = \<lparr>ct_receive = False, ct_send = False, ct_host = [], ct_port = ''47777'', ct_parallel = ''8'',
     ct_seconds = ''10'', ct_chunk_bytes = ''4194304'', ct_socket_buffer_bytes = ''8388608''\<rparr>"

section \<open>Parsing\<close>

text \<open>\<open>None\<close> is the \<^verbatim>\<open>exit(0)\<close> after the usage text.\<close>

definition receive_field :: "string \<Rightarrow> (string \<Rightarrow> ReceiveOptions \<Rightarrow> ReceiveOptions) option" where
  "receive_field arg =
     (if arg = ''--out'' \<or> arg = ''--output-dir'' then Some (\<lambda>val options. options\<lparr>cr_output_dir := val\<rparr>)
      else if arg = ''--host'' then Some (\<lambda>val options. options\<lparr>cr_host := val\<rparr>)
      else if arg = ''--port'' then Some (\<lambda>val options. options\<lparr>cr_port := val\<rparr>)
      else if arg = ''--parallel'' then Some (\<lambda>val options. options\<lparr>cr_parallel := val\<rparr>)
      else if arg = ''--discovery-port'' then Some (\<lambda>val options. options\<lparr>cr_discovery_port := val\<rparr>)
      else None)"

fun parse_receive :: "string list \<Rightarrow> ReceiveOptions \<Rightarrow> ReceiveOptions option result" where
  "parse_receive [] options = Inr (Some options)"
| "parse_receive (arg # args) options =
     (case receive_field arg of
        Some set_field \<Rightarrow>
          (case args of
             [] \<Rightarrow> Inl (requires_value arg)
           | val # rest \<Rightarrow> parse_receive rest (set_field val options))
      | None \<Rightarrow>
          if arg = ''--no-advertise'' then parse_receive args (options\<lparr>cr_advertise := False\<rparr>)
          else if arg = ''--help'' \<or> arg = ''-h'' then Inr None
          else Inl (Invalid_argument (''unknown receive option: '' @ arg)))"

definition send_field :: "string \<Rightarrow> (string \<Rightarrow> SendOptions \<Rightarrow> SendOptions) option" where
  "send_field arg =
     (if arg = ''--name'' then Some (\<lambda>val options. options\<lparr>cs_remote_name := val\<rparr>)
      else if arg = ''--host'' then Some (\<lambda>val options. options\<lparr>cs_host := val\<rparr>)
      else if arg = ''--port'' then Some (\<lambda>val options. options\<lparr>cs_port := val\<rparr>)
      else if arg = ''--parallel'' then Some (\<lambda>val options. options\<lparr>cs_parallel := val\<rparr>)
      else if arg = ''--discovery-port'' then Some (\<lambda>val options. options\<lparr>cs_discovery_port := val\<rparr>)
      else None)"

definition is_option :: "string \<Rightarrow> bool" where
  "is_option arg \<longleftrightarrow> arg \<noteq> [] \<and> hd arg = CHR ''-''"

fun parse_send_loop :: "string list \<Rightarrow> SendOptions \<Rightarrow> SendOptions option result" where
  "parse_send_loop [] options = Inr (Some options)"
| "parse_send_loop (arg # args) options =
     (case send_field arg of
        Some set_field \<Rightarrow>
          (case args of
             [] \<Rightarrow> Inl (requires_value arg)
           | val # rest \<Rightarrow> parse_send_loop rest (set_field val options))
      | None \<Rightarrow>
          if arg = ''--help'' \<or> arg = ''-h'' then Inr None
          else if is_option arg then Inl (Invalid_argument (''unknown send option: '' @ arg))
          else if cs_file options = [] then parse_send_loop args (options\<lparr>cs_file := arg\<rparr>)
          else Inl (Invalid_argument ''send accepts exactly one file or folder path''))"

definition parse_send :: "string list \<Rightarrow> SendOptions option result" where
  "parse_send args =
     (case parse_send_loop args default_send of
        Inl e \<Rightarrow> Inl e
      | Inr None \<Rightarrow> Inr None
      | Inr (Some options) \<Rightarrow>
          if cs_file options = [] then Inl (Invalid_argument ''send requires a file or folder path'') else Inr (Some options))"

definition test_field :: "string \<Rightarrow> (string \<Rightarrow> TestOptions \<Rightarrow> TestOptions) option" where
  "test_field arg =
     (if arg = ''--port'' then Some (\<lambda>val options. options\<lparr>ct_port := val\<rparr>)
      else if arg = ''--parallel'' then Some (\<lambda>val options. options\<lparr>ct_parallel := val\<rparr>)
      else if arg = ''--seconds'' then Some (\<lambda>val options. options\<lparr>ct_seconds := val\<rparr>)
      else if arg = ''--chunk-bytes'' then Some (\<lambda>val options. options\<lparr>ct_chunk_bytes := val\<rparr>)
      else if arg = ''--socket-buffer-bytes'' then Some (\<lambda>val options. options\<lparr>ct_socket_buffer_bytes := val\<rparr>)
      else if arg = ''--host'' then Some (\<lambda>val options. options\<lparr>ct_host := val\<rparr>)
      else None)"

fun parse_test_loop :: "string list \<Rightarrow> TestOptions \<Rightarrow> TestOptions option result" where
  "parse_test_loop [] options = Inr (Some options)"
| "parse_test_loop (arg # args) options =
     (case test_field arg of
        Some set_field \<Rightarrow>
          (case args of
             [] \<Rightarrow> Inl (requires_value arg)
           | val # rest \<Rightarrow> parse_test_loop rest (set_field val options))
      | None \<Rightarrow>
          if arg = ''--help'' \<or> arg = ''-h'' then Inr None
          else if is_option arg then Inl (Invalid_argument (''unknown test option: '' @ arg))
          else if ct_send options \<and> ct_host options = [] then parse_test_loop args (options\<lparr>ct_host := arg\<rparr>)
          else Inl (Invalid_argument ''test send accepts exactly one peer IP''))"

definition test_mode :: "string \<Rightarrow> TestOptions option result" where
  "test_mode mode =
     (if mode = ''receive'' \<or> mode = ''recv'' \<or> mode = ''server'' then Inr (Some (default_test\<lparr>ct_receive := True\<rparr>))
      else if mode = ''send'' \<or> mode = ''client'' then Inr (Some (default_test\<lparr>ct_send := True\<rparr>))
      else if mode = ''--help'' \<or> mode = ''-h'' then Inr None
      else Inl (Invalid_argument (''unknown test mode: '' @ mode)))"

definition parse_test :: "string list \<Rightarrow> TestOptions option result" where
  "parse_test args =
     (case args of
        [] \<Rightarrow> Inl (Invalid_argument ''test requires receive or send'')
      | mode # rest \<Rightarrow>
          (case test_mode mode of
             Inl e \<Rightarrow> Inl e
           | Inr None \<Rightarrow> Inr None
           | Inr (Some start) \<Rightarrow>
               (case parse_test_loop rest start of
                  Inl e \<Rightarrow> Inl e
                | Inr None \<Rightarrow> Inr None
                | Inr (Some options) \<Rightarrow>
                    if ct_send options \<and> ct_host options = []
                    then Inl (Invalid_argument ''test send requires a peer IP, usually the 169.254.x.x cable IP'')
                    else Inr (Some options))))"

section \<open>Finding and running the helpers\<close>

function find_entry :: "(string \<Rightarrow> bool) \<Rightarrow> string \<Rightarrow> string \<Rightarrow> string option" where
  "find_entry exists_file executable path =
     (if path = [] then None
      else let entry = takeWhile (\<lambda>c. c \<noteq> CHR '':'') path; candidate = join_path entry executable in
           if entry \<noteq> [] \<and> exists_file candidate then Some candidate
           else if CHR '':'' \<notin> set path then None
           else find_entry exists_file executable (drop (length entry + 1) path))"
  by pat_completeness auto
termination
  by (relation "measure (\<lambda>(exists_file, executable, path). length path)") auto

declare find_entry.simps [simp del]

definition find_on_path :: "cli_env \<Rightarrow> string \<Rightarrow> string option" where
  "find_on_path env executable =
     (case env_PATH env of None \<Rightarrow> None | Some path \<Rightarrow> find_entry (env_exists env) executable path)"

definition beside_self :: "cli_env \<Rightarrow> string \<Rightarrow> string \<Rightarrow> string option result" where
  "beside_self env self executable =
     (if parent_path self = [] then Inr None
      else case env_weakly_canonical env self of
             Inl e \<Rightarrow> Inl e
           | Inr canonical \<Rightarrow>
               let candidate = join_path (parent_path canonical) executable in
               Inr (if env_exists env candidate then Some candidate else None))"

definition sibling_tool :: "cli_env \<Rightarrow> string \<Rightarrow> string \<Rightarrow> string result" where
  "sibling_tool env self executable =
     (case beside_self env self executable of
        Inl e \<Rightarrow> Inl e
      | Inr (Some candidate) \<Rightarrow> Inr candidate
      | Inr None \<Rightarrow>
          let here = join_path (env_current_path env) executable in
          if env_exists env here then Inr here
          else case find_on_path env executable of
                 Some found \<Rightarrow> Inr found
               | None \<Rightarrow> Inl (Runtime_error (''could not find helper executable: '' @ executable)))"

definition command_line :: "string \<Rightarrow> string list \<Rightarrow> string" where
  "command_line executable args = foldl (\<lambda>command arg. command @ '' '' @ shell_quote arg) (shell_quote executable) args"

definition run_command :: "cli_env \<Rightarrow> string \<Rightarrow> string list \<Rightarrow> int" where
  "run_command env executable args = (if env_system env (command_line executable args) = 0 then 0 else 1)"

definition receive_args :: "ReceiveOptions \<Rightarrow> string list" where
  "receive_args options =
     [''--receive'', ''--host'', cr_host options, ''--port'', cr_port options, ''--output-dir'', cr_output_dir options,
      ''--parallel'', cr_parallel options, ''--discovery-port'', cr_discovery_port options] @
     (if cr_advertise options then [] else [''--no-advertise''])"

definition send_args :: "SendOptions \<Rightarrow> string list" where
  "send_args options =
     [''--send'', ''--file'', cs_file options, ''--discovery-port'', cs_discovery_port options] @
     (if cs_host options = [] then [''--auto'']
      else [''--host'', cs_host options, ''--port'', cs_port options, ''--parallel'', cs_parallel options]) @
     (if cs_remote_name options = [] then [] else [''--name'', cs_remote_name options])"

definition test_args :: "TestOptions \<Rightarrow> string list" where
  "test_args options =
     (if ct_receive options
      then [''--server'', ''--host'', ''0.0.0.0'', ''--port'', ct_port options, ''--parallel'', ct_parallel options,
            ''--socket-buffer-bytes'', ct_socket_buffer_bytes options]
      else [''--client'', ''--host'', ct_host options, ''--port'', ct_port options, ''--seconds'', ct_seconds options,
            ''--chunk-bytes'', ct_chunk_bytes options, ''--parallel'', ct_parallel options,
            ''--socket-buffer-bytes'', ct_socket_buffer_bytes options])"

definition run_helper :: "cli_env \<Rightarrow> string \<Rightarrow> string \<Rightarrow> string list \<Rightarrow> int result" where
  "run_helper env self name args = map_sum id (\<lambda>executable. run_command env executable args) (sibling_tool env self name)"

text \<open>A subcommand: its parsed options, the usage exit, or an error.\<close>

definition with_options :: "('o \<Rightarrow> int result) \<Rightarrow> 'o option result \<Rightarrow> int result" where
  "with_options run parsed =
     (case parsed of Inl e \<Rightarrow> Inl e | Inr None \<Rightarrow> Inr 0 | Inr (Some options) \<Rightarrow> run options)"

definition cli_command :: "cli_env \<Rightarrow> string \<Rightarrow> string \<Rightarrow> string list \<Rightarrow> int result" where
  "cli_command env self command args =
     (if command = ''receive'' \<or> command = ''recv''
      then with_options (\<lambda>options. run_helper env self ''hyperlink_file'' (receive_args options))
             (parse_receive args (default_receive env))
      else if command = ''send''
      then with_options (\<lambda>options. run_helper env self ''hyperlink_file'' (send_args options)) (parse_send args)
      else if command = ''test'' \<or> command = ''speedtest''
      then with_options (\<lambda>options. run_helper env self ''hyperlink_bench'' (test_args options)) (parse_test args)
      else if command = ''bench'' then run_helper env self ''hyperlink_bench'' args
      else if command = ''probe'' then run_helper env self ''hyperlink_probe'' args
      else if command = ''--help'' \<or> command = ''-h'' \<or> command = ''help'' then Inr 0
      else Inl (Invalid_argument (''unknown command: '' @ command)))"

definition cli_main :: "cli_env \<Rightarrow> string list \<Rightarrow> int" where
  "cli_main env argv =
     (case argv of
        self # command # args \<Rightarrow> (case cli_command env self command args of Inl e \<Rightarrow> 1 | Inr status \<Rightarrow> status)
      | _ \<Rightarrow> 1)"

section \<open>What reaches the helpers\<close>

lemma sh_words_command_line: "sh_words None (command_line executable args) = Some (executable # args)"
proof -
  have flat: "foldl (\<lambda>command arg. command @ '' '' @ shell_quote arg) rest bs =
      rest @ concat (map (\<lambda>arg. '' '' @ shell_quote arg) bs)" for rest bs
    by (induction bs arbitrary: rest) simp_all
  have "sh_words (Some a) (concat (map (\<lambda>arg. '' '' @ shell_quote arg) bs)) = Some (a # bs)" for a bs
    by (induction bs arbitrary: a) (simp_all add: sh_words_shell_quote)
  then show ?thesis unfolding command_line_def flat sh_words_shell_quote .
qed

text \<open>
  What a request means to the helper: its numbers are read in the order of the arguments,
  then the ports of the streams are checked.
\<close>

definition and_then :: "'a result \<Rightarrow> ('a \<Rightarrow> 'b result) \<Rightarrow> 'b result" where
  "and_then r f = (case r of Inl e \<Rightarrow> Inl e | Inr x \<Rightarrow> f x)"

definition checked :: "Options \<Rightarrow> Options option result" where
  "checked options =
     (if (ucast (o_port options) :: u64) + ucast (o_parallel options) - 1 > 65535
      then Inl (Invalid_argument ''port plus parallel stream count exceeds 65535'') else Inr (Some options))"

definition receive_request :: "ReceiveOptions \<Rightarrow> Options option result" where
  "receive_request options =
     and_then (parse_port (cr_port options)) (\<lambda>port.
     and_then (parse_parallel (cr_parallel options)) (\<lambda>n.
     and_then (parse_port (cr_discovery_port options)) (\<lambda>discovery_port.
       checked \<lparr>o_send = False, o_receive = True, o_auto_discover = False, o_advertise = cr_advertise options,
         o_host = cr_host options, o_port = port, o_discovery_port = discovery_port, o_parallel = n,
         o_file = [], o_output_dir = cr_output_dir options, o_remote_name = []\<rparr>)))"

text \<open>Without a host the receiver is to be discovered, and its port and stream count are not sent.\<close>

definition send_request :: "SendOptions \<Rightarrow> Options option result" where
  "send_request options =
     and_then (parse_port (cs_discovery_port options)) (\<lambda>discovery_port.
       let plain = \<lparr>o_send = True, o_receive = False, o_auto_discover = False, o_advertise = True,
         o_host = cs_host options, o_port = 47790, o_discovery_port = discovery_port, o_parallel = 1,
         o_file = cs_file options, o_output_dir = ''.'', o_remote_name = cs_remote_name options\<rparr> in
       if cs_host options = [] then Inr (Some (plain\<lparr>o_auto_discover := True\<rparr>))
       else and_then (parse_port (cs_port options)) (\<lambda>port.
            and_then (parse_parallel (cs_parallel options)) (\<lambda>n.
              checked (plain\<lparr>o_port := port, o_parallel := n\<rparr>))))"

text \<open>
  C7. The front end hands over what it was asked for. Whatever characters the options contain, the shell
  splits the command into the helper and its arguments as they were built, and the
  file-transfer tool reads from them exactly the request: for \<^verbatim>\<open>receive\<close> its host, ports, streams, output directory and
  advertising, for \<^verbatim>\<open>send\<close> with a file the file, the name and either discovery or the given host, port and
  streams; numbers that do not parse or ports that do not exist are reported by the tool.
\<close>

theorem cli_hands_over_request:
  "sh_words None (command_line executable (receive_args receive)) = Some (executable # receive_args receive) \<and>
   parse_args (receive_args receive) = receive_request receive \<and>
   sh_words None (command_line executable (send_args send)) = Some (executable # send_args send) \<and>
   (cs_file send \<noteq> [] \<longrightarrow> parse_args (send_args send) = send_request send)"
proof -
  note unfold = parse_args_def flag_option_def takes_value_def value_option_def and_then_def checked_def
    default_transfer_options_def check_options_def kDefaultPort_def kDefaultDiscoveryPort_def Let_def
  have "parse_args (receive_args receive) = receive_request receive"
    by (cases "parse_port (cr_port receive)"; cases "parse_parallel (cr_parallel receive)"; cases "parse_port (cr_discovery_port receive)";
        cases "cr_advertise receive") (simp_all add: receive_args_def receive_request_def unfold)
  moreover have "parse_args (send_args send) = send_request send" if "cs_file send \<noteq> []"
    using that
    by (cases "parse_port (cs_discovery_port send)"; cases "parse_port (cs_port send)"; cases "parse_parallel (cs_parallel send)";
        cases "cs_host send = []"; cases "cs_remote_name send = []") (simp_all add: send_args_def send_request_def unfold)
  ultimately show ?thesis by (simp add: sh_words_command_line)
qed

theorem cli_hands_over_request_witness:
  "cs_file (default_send\<lparr>cs_file := ''it's.bin''\<rparr>) \<noteq> [] \<and>
   sh_words None (command_line ''hyperlink_file'' (send_args (default_send\<lparr>cs_file := ''it's.bin''\<rparr>))) =
     Some [''hyperlink_file'', ''--send'', ''--file'', ''it's.bin'', ''--discovery-port'', ''47789'', ''--auto''] \<and>
   parse_args (send_args (default_send\<lparr>cs_file := ''it's.bin''\<rparr>)) = send_request (default_send\<lparr>cs_file := ''it's.bin''\<rparr>)"
  using cli_hands_over_request [of "''hyperlink_file''" _ "default_send\<lparr>cs_file := ''it's.bin''\<rparr>"]
  by (simp add: send_args_def default_send_def)

end
