(* ===== verification/Directory_Plan.thy ===== *)
theory Directory_Plan
  imports Transfer_Plan
begin

text \<open>
  How a directory is shared out among the streams: nothing is lost or doubled, the counters
  are exact, directories go to the first stream before its files, and no stream gets much more than another.
\<close>

lemma min_element_least:
  "ps \<noteq> [] \<Longrightarrow> min_element ps < length ps \<and> (\<forall>p \<in> set ps. dp_bytes (ps ! min_element ps) \<le> dp_bytes p)"
proof (induction ps rule: min_element.induct)
  case (3 p q ps)
  from "3.IH" have m: "min_element (q # ps) < length (q # ps)"
    "\<forall>r \<in> set (q # ps). dp_bytes ((q # ps) ! min_element (q # ps)) \<le> dp_bytes r" by simp_all
  show ?case
  proof (cases "dp_bytes ((q # ps) ! min_element (q # ps)) < dp_bytes p")
    case True
    with m show ?thesis by (auto simp: Let_def)
  next
    case False
    then have "dp_bytes p \<le> dp_bytes ((q # ps) ! min_element (q # ps))" by simp
    with m have "\<forall>r \<in> set (q # ps). dp_bytes p \<le> dp_bytes r" using order_trans by blast
    with False show ?thesis by (simp add: Let_def)
  qed
qed simp_all

definition payload_bytes :: "DirectoryItem list \<Rightarrow> nat" where
  "payload_bytes items = sum_list (map (\<lambda>item. unat (di_payload_size item)) (filter has_payload items))"

lemma payload_bytes_simps [simp]:
  "payload_bytes [] = 0" "payload_bytes (xs @ ys) = payload_bytes xs + payload_bytes ys"
  "payload_bytes (x # xs) = (if has_payload x then unat (di_payload_size x) else 0) + payload_bytes xs"
  by (simp_all add: payload_bytes_def)

lemma payload_bytes_mset: "mset xs = mset ys \<Longrightarrow> payload_bytes xs = payload_bytes ys"
proof -
  assume "mset xs = mset ys"
  then have "mset (map (\<lambda>item. unat (di_payload_size item)) (filter has_payload xs)) =
      mset (map (\<lambda>item. unat (di_payload_size item)) (filter has_payload ys))" by simp
  then show ?thesis unfolding payload_bytes_def by (metis sum_mset_sum_list)
qed

lemma payload_bytes_part:
  "i < length ps \<Longrightarrow> payload_bytes (dp_items (ps ! i)) \<le> payload_bytes (concat (map dp_items ps))"
  by (induction ps arbitrary: i) (auto simp: nth_Cons split: nat.splits intro: trans_le_add2)

lemma mset_concat_update:
  "i < length ps \<Longrightarrow> dp_items p = dp_items (ps ! i) @ [x] \<Longrightarrow>
   mset (concat (map dp_items (ps[i := p]))) = add_mset x (mset (concat (map dp_items ps)))"
  by (induction ps arbitrary: i) (auto split: nat.splits)

text \<open>The partitions after some of the payload has been assigned.\<close>

definition plan_inv :: "nat \<Rightarrow> nat \<Rightarrow> DirectoryItem list \<Rightarrow> DirectoryItem list \<Rightarrow> DirectoryPartition list \<Rightarrow> bool" where
  "plan_inv n largest metadata assigned ps \<longleftrightarrow>
     length ps = n \<and> mset (concat (map dp_items ps)) = mset metadata + mset assigned \<and>
     (\<forall>p \<in> set ps. unat (dp_bytes p) = payload_bytes (dp_items p)) \<and>
     (\<forall>p \<in> set ps. \<forall>q \<in> set ps. unat (dp_bytes p) \<le> unat (dp_bytes q) + largest) \<and>
     (\<forall>i < n. \<exists>rest. dp_items (ps ! i) = (if i = 0 then metadata else []) @ rest \<and> (\<forall>x \<in> set rest. has_payload x))"

lemma assign_item_inv:
  assumes "plan_inv n largest metadata assigned ps" and "0 < n" and "has_payload x"
    and "unat (di_payload_size x) \<le> largest" and "\<forall>m \<in> set metadata. \<not> has_payload m"
    and "payload_bytes assigned + unat (di_payload_size x) < 2 ^ 64"
  shows "plan_inv n largest metadata (assigned @ [x]) (assign_item x ps)"
proof -
  let ?t = "min_element ps" and ?s = "unat (di_payload_size x)"
  let ?p = "\<lparr>dp_items = dp_items (ps ! ?t) @ [x], dp_bytes = dp_bytes (ps ! ?t) + di_payload_size x\<rparr>"
  from assms(1) have inv: "length ps = n" "mset (concat (map dp_items ps)) = mset metadata + mset assigned"
    "\<And>p. p \<in> set ps \<Longrightarrow> unat (dp_bytes p) = payload_bytes (dp_items p)"
    "\<And>p q. p \<in> set ps \<Longrightarrow> q \<in> set ps \<Longrightarrow> unat (dp_bytes p) \<le> unat (dp_bytes q) + largest"
    "\<And>i. i < n \<Longrightarrow> \<exists>rest. dp_items (ps ! i) = (if i = 0 then metadata else []) @ rest \<and> (\<forall>x \<in> set rest. has_payload x)"
    unfolding plan_inv_def by blast+
  have "ps \<noteq> []" using inv(1) assms(2) by auto
  from min_element_least [OF this] have t: "?t < n" "\<And>p. p \<in> set ps \<Longrightarrow> unat (dp_bytes (ps ! ?t)) \<le> unat (dp_bytes p)"
    using inv(1) by (simp_all add: word_le_nat_alt)
  have assign: "assign_item x ps = ps[?t := ?p]" by (simp add: assign_item_def Let_def)
  have "payload_bytes metadata = 0" using assms(5) by (simp add: payload_bytes_def filter_False)
  then have "payload_bytes (concat (map dp_items ps)) = payload_bytes assigned"
    using payload_bytes_mset [of "concat (map dp_items ps)" "metadata @ assigned"] inv(2) by simp
  with payload_bytes_part [of ?t ps] inv(1,3) t(1) have "unat (dp_bytes (ps ! ?t)) \<le> payload_bytes assigned" by simp
  then have sum: "unat (dp_bytes ?p) = unat (dp_bytes (ps ! ?t)) + ?s"
    using assms(6) by (simp add: unat_add_lem [THEN iffD1])
  have new: "set (ps[?t := ?p]) \<subseteq> insert ?p (set ps)" by (rule set_update_subset_insert)
  have counters: "unat (dp_bytes p) = payload_bytes (dp_items p)" if "p \<in> set (ps[?t := ?p])" for p
  proof (cases "p = ?p")
    case True
    with sum inv(1,3) t(1) assms(3) show ?thesis by simp
  qed (use that new inv(3) in blast)
  have balance: "unat (dp_bytes p) \<le> unat (dp_bytes q) + largest" if "p \<in> set (ps[?t := ?p])" "q \<in> set (ps[?t := ?p])" for p q
  proof -
    have m: "ps ! ?t \<in> set ps" using inv(1) t(1) by simp
    from that new consider "p = ?p" "q = ?p" | "p = ?p" "q \<in> set ps" | "p \<in> set ps" "q = ?p" | "p \<in> set ps" "q \<in> set ps" by blast
    then show ?thesis
    proof cases
      case 2
      show ?thesis unfolding 2(1) sum using t(2) [OF 2(2)] assms(4) by linarith
    next
      case 3
      show ?thesis unfolding 3(2) sum using inv(4) [OF 3(1) m] by linarith
    qed (use inv(4) in simp_all)
  qed
  have items: "\<exists>rest. dp_items (ps[?t := ?p] ! i) = (if i = 0 then metadata else []) @ rest \<and> (\<forall>y \<in> set rest. has_payload y)"
    if "i < n" for i
  proof -
    from inv(5) [OF that] obtain rest where r: "dp_items (ps ! i) = (if i = 0 then metadata else []) @ rest" "\<forall>y \<in> set rest. has_payload y"
      by blast
    show ?thesis
    proof (cases "i = ?t")
      case True
      with r assms(3) inv(1) that show ?thesis by (intro exI [of _ "rest @ [x]"]) auto
    next
      case False
      with r show ?thesis by (intro exI [of _ rest]) simp
    qed
  qed
  show ?thesis
    unfolding plan_inv_def assign using inv(1,2) t(1) mset_concat_update [of ?t ps ?p x] counters balance items by simp
qed

lemma fold_assign_inv:
  "plan_inv n largest metadata assigned ps \<Longrightarrow> 0 < n \<Longrightarrow> \<forall>x \<in> set xs. has_payload x \<and> unat (di_payload_size x) \<le> largest \<Longrightarrow>
   \<forall>m \<in> set metadata. \<not> has_payload m \<Longrightarrow> payload_bytes assigned + payload_bytes xs < 2 ^ 64 \<Longrightarrow>
   plan_inv n largest metadata (assigned @ xs) (fold assign_item xs ps)"
proof (induction xs arbitrary: assigned ps)
  case (Cons x xs)
  have "plan_inv n largest metadata (assigned @ [x]) (assign_item x ps)"
    using Cons.prems by (intro assign_item_inv) auto
  from Cons.IH [OF this] Cons.prems show ?case by simp
qed simp

text \<open>
  C8. Sharing out a directory. For any positive number of streams and any entries whose payload sizes add up to
  less than $2^{64}$: there is one partition per stream; together the partitions hold every
  entry exactly as often as it was collected; each counter is the exact sum of the sizes
  assigned to its stream; the entries without payload, the directories, come first in the
  first partition, in their order, and nowhere else; and the loads of two streams differ by
  at most the size of the largest entry.
\<close>

theorem partition_directory_items_correct:
  assumes "parallel \<noteq> 0" and "payload_bytes items < 2 ^ 64"
    and "\<forall>item \<in> set items. unat (di_payload_size item) \<le> largest"
  shows "let ps = partition_directory_items items parallel in
    length ps = unat parallel \<and> mset (concat (map dp_items ps)) = mset items \<and>
    (\<forall>p \<in> set ps. unat (dp_bytes p) = payload_bytes (dp_items p)) \<and>
    (\<forall>p \<in> set ps. \<forall>q \<in> set ps. unat (dp_bytes p) \<le> unat (dp_bytes q) + largest) \<and>
    (\<forall>i < unat parallel. \<exists>rest. (\<forall>x \<in> set rest. has_payload x) \<and>
       dp_items (ps ! i) = (if i = 0 then filter (\<lambda>item. \<not> has_payload item) items else []) @ rest)"
proof -
  let ?n = "unat parallel" and ?metadata = "filter (\<lambda>item. \<not> has_payload item) items"
  let ?payload = "sort_by (\<lambda>left right. di_payload_size left > di_payload_size right) (filter has_payload items)"
  let ?start = "(replicate ?n empty_partition)[0 := (replicate ?n empty_partition ! 0)\<lparr>dp_items := ?metadata\<rparr>]"
  have n: "0 < ?n" using assms(1) by (simp add: unat_gt_0)
  then obtain k where k: "?n = Suc k" by (cases ?n) auto
  have start: "?start = \<lparr>dp_items = ?metadata, dp_bytes = 0\<rparr> # replicate k empty_partition"
    by (simp add: k empty_partition_def)
  have zero: "payload_bytes ?metadata = 0" by (simp add: payload_bytes_def)
  have "plan_inv ?n largest ?metadata [] ?start"
    unfolding start plan_inv_def using zero
    by (auto simp: k empty_partition_def nth_Cons split: nat.splits)
  moreover have "payload_bytes ?payload = payload_bytes items"
    using payload_bytes_mset [of ?payload "filter has_payload items"] by (simp add: payload_bytes_def)
  ultimately have "plan_inv ?n largest ?metadata ([] @ ?payload) (fold assign_item ?payload ?start)"
    using assms(2,3) n by (intro fold_assign_inv) auto
  moreover have "partition_directory_items items parallel = fold assign_item ?payload ?start"
    by (simp add: partition_directory_items_def Let_def)
  moreover have "mset ?metadata + mset ?payload = mset items" by (simp add: multiset_partition [symmetric])
  ultimately show ?thesis unfolding Let_def plan_inv_def by (simp only: append_Nil) metis
qed

definition some_items :: "DirectoryItem list" where
  "some_items = [\<lparr>di_kind = DirectoryEntry, di_source = ''d'', di_relative_path = ''d'', di_payload_size = 0, di_mode = 493\<rparr>,
     \<lparr>di_kind = DirectoryFile, di_source = ''d/a'', di_relative_path = ''d/a'', di_payload_size = 5, di_mode = 420\<rparr>,
     \<lparr>di_kind = DirectoryFile, di_source = ''d/b'', di_relative_path = ''d/b'', di_payload_size = 9, di_mode = 420\<rparr>]"

theorem partition_directory_items_correct_witness:
  "mset (concat (map dp_items (partition_directory_items some_items 2))) = mset some_items \<and>
   length (partition_directory_items some_items 2) = 2"
proof -
  have "(2 :: u32) \<noteq> 0" "payload_bytes some_items < 2 ^ 64" "\<forall>item \<in> set some_items. unat (di_payload_size item) \<le> 9"
    by (simp_all add: some_items_def has_payload_def)
  from partition_directory_items_correct [OF this] show ?thesis by (simp add: Let_def)
qed

end
