(* ===== verification/File_Receiver.thy ===== *)
theory File_Receiver
  imports File_Sender
begin

text \<open>
  The receiving side of \<^verbatim>\<open>examples/file_transfer.cpp\<close>: the single-stream receiver, a function of
  its connection, and the parallel one, whose threads share the output file and a record
  behind a mutex. A thread is a machine that takes one step per wait or call on the file
  system; the threads of a transfer take their steps in any order.
\<close>

section \<open>File-system helpers\<close>

definition apply_permissions :: "'f file_api \<Rightarrow> string \<Rightarrow> u64 \<Rightarrow> 'f \<Rightarrow> 'f" where
  "apply_permissions fs path mode f = fs_permissions fs path mode f"

text \<open>A link that cannot be created is replaced by a text file that holds its target.\<close>

definition create_symlink_or_fallback :: "'f file_api \<Rightarrow> string \<Rightarrow> string \<Rightarrow> 'f \<Rightarrow> unit result \<times> 'f" where
  "create_symlink_or_fallback fs target output_path f =
     (case fs_create_symlink fs target output_path (fs_remove fs output_path f) of
        (True, f1) \<Rightarrow> (Inr (), f1)
      | (False, f1) \<Rightarrow>
          let fallback = output_path @ ''.hyperlink-symlink.txt'' in
          case fs_truncate fs fallback f1 of
            (False, f2) \<Rightarrow> (Inl (Runtime_error (''failed to create symlink fallback file for: '' @ output_path)), f2)
          | (True, f2) \<Rightarrow> (Inr (), snd (fs_write fs fallback 0 (map byte_of_char target) f2)))"

section \<open>The single-stream receiver\<close>

text \<open>
  The loop of \<^verbatim>\<open>receive_payload_to_file\<close>; the second number is what remains of the payload and
  the first how much was received, which is where the next write of the stream goes.
\<close>

function payload_loop ::
  "'t transport_ops \<Rightarrow> 'f file_api \<Rightarrow> string \<Rightarrow> nat \<Rightarrow> nat \<Rightarrow> 't session \<Rightarrow> 'f \<Rightarrow> unit result \<times> 't session \<times> 'f" where
  "payload_loop ops fs path received_total remaining s f =
     (if remaining = 0 then (Inr (), s, f)
      else case session_receive_into ops (min remaining kChunkBytes) s of
             (Inl e, s') \<Rightarrow> (Inl e, s', f)
           | (Inr bytes, s') \<Rightarrow>
               if bytes = [] then (Inl (Runtime_error ''connection closed before transfer completed''), s', f)
               else case fs_write fs path received_total bytes f of
                      (False, f') \<Rightarrow> (Inl (Runtime_error ''failed while writing output file''), s', f')
                    | (True, f') \<Rightarrow>
                        payload_loop ops fs path (received_total + length bytes) (remaining - length bytes) s' f')"
  by pat_completeness auto
termination
  by (relation "measure (\<lambda>(ops, fs, path, received_total, remaining, s, f). remaining)") auto

declare payload_loop.simps [simp del]

definition receive_payload_to_file ::
  "'t transport_ops \<Rightarrow> 'f file_api \<Rightarrow> string \<Rightarrow> u64 \<Rightarrow> 't session \<Rightarrow> 'f \<Rightarrow> unit result \<times> 't session \<times> 'f" where
  "receive_payload_to_file ops fs output_path payload_size s f =
     (case fs_truncate fs output_path f of
        (False, f') \<Rightarrow> (Inl (Runtime_error (''failed to open output file: '' @ output_path)), s, f')
      | (True, f') \<Rightarrow> payload_loop ops fs output_path 0 (unat payload_size) s f')"

text \<open>
  A pipe to a command: starting it may fail, a write may take less than it was given, and
  closing it yields the command's status.
\<close>

record 'p pipe_api =
  p_open :: "string \<Rightarrow> 'p \<Rightarrow> bool \<times> 'p"
  p_write :: "byte list \<Rightarrow> 'p \<Rightarrow> nat \<times> 'p"
  p_close :: "'p \<Rightarrow> int \<times> 'p"

text \<open>
  The loop of \<^verbatim>\<open>receive_stream_to_pipe\<close> ends when the peer closes its side, and not before: it
  has no value if the peer sends for ever. If the receive throws, the pipe stays open.
\<close>

partial_function (option) pipe_loop ::
  "'t transport_ops \<Rightarrow> 'p pipe_api \<Rightarrow> u64 \<Rightarrow> 't session \<Rightarrow> 'p \<Rightarrow> (u64 result \<times> 't session \<times> 'p) option" where
  "pipe_loop ops pipes received_total s p =
     (case session_receive_into ops kChunkBytes s of
        (Inl e, s') \<Rightarrow> Some (Inl e, s', p)
      | (Inr bytes, s') \<Rightarrow>
          if bytes = [] then Some (Inr received_total, s', p)
          else let (written, p') = p_write pipes bytes p in
               if written \<noteq> length bytes
               then Some (Inl (Runtime_error ''failed while writing archive stream to extractor''), s', snd (p_close pipes p'))
               else pipe_loop ops pipes (received_total + of_nat (length bytes)) s' p')"

definition receive_stream_to_pipe ::
  "'t transport_ops \<Rightarrow> 'p pipe_api \<Rightarrow> string \<Rightarrow> 't session \<Rightarrow> 'p \<Rightarrow> (u64 result \<times> 't session \<times> 'p) option" where
  "receive_stream_to_pipe ops pipes command s p =
     (case p_open pipes command p of
        (False, p') \<Rightarrow> Some (Inl (Runtime_error (''failed to start command: '' @ command)), s, p')
      | (True, p') \<Rightarrow>
          (case pipe_loop ops pipes 0 s p' of
             None \<Rightarrow> None
           | Some (Inl e, s', p1) \<Rightarrow> Some (Inl e, s', p1)
           | Some (Inr received_total, s', p1) \<Rightarrow>
               (case p_close pipes p1 of (status, p2) \<Rightarrow>
                  if status \<noteq> 0 then Some (Inl (Runtime_error (''command failed: '' @ command)), s', p2)
                  else Some (Inr received_total, s', p2))))"

text \<open>
  \<^verbatim>\<open>run_receive\<close> with one stream, after the output directory was created and the receiver
  advertised. Every kind but a file and a part is taken for an archive.
\<close>

definition receive_single ::
  "'t transport_ops \<Rightarrow> 'f file_api \<Rightarrow> 'p pipe_api \<Rightarrow> Options \<Rightarrow> 't \<Rightarrow> 'f \<Rightarrow> 'p \<Rightarrow>
   (u64 result \<times> 't session \<times> 'f \<times> 'p) option" where
  "receive_single ops fs pipes options t f p =
     (case connect_session ops ''hyperlink-file'' (new_session t) of
        (Inl e, s) \<Rightarrow> Some (Inl e, session_close ops s, f, p)
      | (Inr _, s) \<Rightarrow>
          (case receive_header ops s of
             (Inl e, s1) \<Rightarrow> Some (Inl e, session_close ops s1, f, p)
           | (Inr incoming, s1) \<Rightarrow>
               if ih_kind incoming = FilePart
               then Some (Inl (Runtime_error ''incoming file uses parallel parts; restart receiver with --parallel''),
                          session_close ops s1, f, p)
               else if ih_kind incoming = File
               then case receive_payload_to_file ops fs (join_path (o_output_dir options) (ih_file_name incoming))
                           (ih_payload_size incoming) s1 f of
                      (r, s2, f') \<Rightarrow> Some (map_sum id (\<lambda>_. ih_payload_size incoming) r, session_close ops s2, f', p)
               else map_option (\<lambda>(r, s2, p'). (r, session_close ops s2, f, p'))
                      (receive_stream_to_pipe ops pipes (tar_extract_command (o_output_dir options)) s1 p)))"

section \<open>The threads of the parallel receiver\<close>

text \<open>
  \<^verbatim>\<open>ReceiveSharedState\<close>; the mutex is held by the thread of a stream or by none.
\<close>

record ReceiveSharedState =
  sh_mutex :: "nat option"
  sh_initialized :: bool
  sh_output_path :: string
  sh_file_name :: string
  sh_total_size :: u64

definition initial_shared :: ReceiveSharedState where
  "initial_shared = \<lparr>sh_mutex = None, sh_initialized = False, sh_output_path = [], sh_file_name = [], sh_total_size = 0\<rparr>"

text \<open>Where a thread is in \<^verbatim>\<open>receive_file_part\<close> and the variables it holds there.\<close>

datatype receive_phase =
    Connecting
  | Read_header
  | Make_directory string
  | Link_parent string u64
  | Link_target string u64
  | Make_link string string u64
  | File_parent string IncomingHeader
  | File_open string IncomingHeader
  | File_payload string IncomingHeader nat
  | Lock_shared IncomingHeader
  | Create_output IncomingHeader
  | Resize_output IncomingHeader
  | Open_output string IncomingHeader
  | Part_payload string IncomingHeader nat
  | Finished

record 't receiver =
  r_phase :: receive_phase
  r_session :: "'t session"
  r_result :: StreamResult

text \<open>Leaving the loop, normally or by an exception, destroys the session.\<close>

definition finish :: "'t transport_ops \<Rightarrow> exn option \<Rightarrow> 't receiver \<Rightarrow> 't receiver" where
  "finish ops error r = \<lparr>r_phase = Finished, r_session = session_close ops (r_session r),
     r_result = (r_result r)\<lparr>sr_error := error\<rparr>\<rparr>"

definition add_bytes :: "u64 \<Rightarrow> 't receiver \<Rightarrow> 't receiver" where
  "add_bytes n r = r\<lparr>r_result := (r_result r)\<lparr>sr_bytes := sr_bytes (r_result r) + n\<rparr>\<rparr>"

text \<open>What the loop does next with a header.\<close>

definition dispatch :: "Options \<Rightarrow> IncomingHeader \<Rightarrow> receive_phase result" where
  "dispatch options incoming =
     (let below = (\<lambda>phase. map_sum id (\<lambda>path. phase (join_path (o_output_dir options) path))
                     (safe_relative_path (ih_file_name incoming))) in
      case ih_kind incoming of
        DirectoryEntry \<Rightarrow> below Make_directory
      | DirectorySymlink \<Rightarrow> below (\<lambda>path. Link_parent path (ih_payload_size incoming))
      | DirectoryFile \<Rightarrow> below (\<lambda>path. File_parent path incoming)
      | DirectoryTar \<Rightarrow> Inl (Runtime_error ''parallel receive got unsupported transfer kind'')
      | _ \<Rightarrow>
          (case safe_file_name (ih_file_name incoming) of
             Inl e \<Rightarrow> Inl e
           | Inr name \<Rightarrow>
               if ih_offset incoming + ih_payload_size incoming > ih_total_size incoming
               then Inl (Runtime_error ''incoming file range exceeds total file size'')
               else Inr (Lock_shared (incoming\<lparr>ih_file_name := name\<rparr>))))"

definition connect_step :: "'t transport_ops \<Rightarrow> 't receiver \<Rightarrow> 't receiver" where
  "connect_step ops r =
     (case connect_session ops ''hyperlink-file'' (r_session r) of
        (Inl e, s) \<Rightarrow> finish ops (Some e) (r\<lparr>r_session := s\<rparr>)
      | (Inr _, s) \<Rightarrow> r\<lparr>r_phase := Read_header, r_session := s\<rparr>)"

definition header_step :: "'t transport_ops \<Rightarrow> Options \<Rightarrow> 't receiver \<Rightarrow> 't receiver" where
  "header_step ops options r =
     (case receive_header_optional ops (r_session r) of
        (Inl e, s) \<Rightarrow> finish ops (Some e) (r\<lparr>r_session := s\<rparr>)
      | (Inr None, s) \<Rightarrow> finish ops None (r\<lparr>r_session := s\<rparr>)
      | (Inr (Some incoming), s) \<Rightarrow>
          (case dispatch options incoming of
             Inl e \<Rightarrow> finish ops (Some e) (r\<lparr>r_session := s\<rparr>)
           | Inr phase \<Rightarrow> r\<lparr>r_phase := phase, r_session := s\<rparr>))"

text \<open>Directories and links: the overloads of \<^verbatim>\<open>create_directories\<close> without an error code throw.\<close>

definition directories_step ::
  "'t transport_ops \<Rightarrow> 'f file_api \<Rightarrow> string \<Rightarrow> receive_phase \<Rightarrow> 't receiver \<Rightarrow> 'f \<Rightarrow> 't receiver \<times> 'f" where
  "directories_step ops fs path next_phase r f =
     (case fs_create_directories fs path f of
        (Some message, f') \<Rightarrow> (finish ops (Some (Filesystem_error message)) r, f')
      | (None, f') \<Rightarrow> (r\<lparr>r_phase := next_phase\<rparr>, f'))"

definition link_target_step :: "'t transport_ops \<Rightarrow> string \<Rightarrow> u64 \<Rightarrow> 't receiver \<Rightarrow> 't receiver" where
  "link_target_step ops output_path payload_size r =
     (case receive_text_payload ops payload_size (r_session r) of
        (Inl e, s) \<Rightarrow> finish ops (Some e) (r\<lparr>r_session := s\<rparr>)
      | (Inr target, s) \<Rightarrow> r\<lparr>r_phase := Make_link target output_path payload_size, r_session := s\<rparr>)"

definition make_link_step ::
  "'t transport_ops \<Rightarrow> 'f file_api \<Rightarrow> string \<Rightarrow> string \<Rightarrow> u64 \<Rightarrow> 't receiver \<Rightarrow> 'f \<Rightarrow> 't receiver \<times> 'f" where
  "make_link_step ops fs target output_path payload_size r f =
     (case create_symlink_or_fallback fs target output_path f of
        (Inl e, f') \<Rightarrow> (finish ops (Some e) r, f')
      | (Inr _, f') \<Rightarrow> (add_bytes payload_size (r\<lparr>r_phase := Read_header\<rparr>), f'))"

text \<open>\<^verbatim>\<open>receive_directory_file\<close>\<close>

definition file_parent_step ::
  "'t transport_ops \<Rightarrow> 'f file_api \<Rightarrow> string \<Rightarrow> IncomingHeader \<Rightarrow> 't receiver \<Rightarrow> 'f \<Rightarrow> 't receiver \<times> 'f" where
  "file_parent_step ops fs output_path incoming r f =
     (case fs_create_directories fs (parent_path output_path) f of
        (Some message, f') \<Rightarrow>
          (finish ops (Some (Runtime_error (''failed to create parent directory: '' @ parent_path output_path @
             '': '' @ message))) r, f')
      | (None, f') \<Rightarrow> (r\<lparr>r_phase := File_open output_path incoming\<rparr>, f'))"

definition file_open_step ::
  "'t transport_ops \<Rightarrow> 'f file_api \<Rightarrow> string \<Rightarrow> IncomingHeader \<Rightarrow> 't receiver \<Rightarrow> 'f \<Rightarrow> 't receiver \<times> 'f" where
  "file_open_step ops fs output_path incoming r f =
     (case fs_truncate fs output_path f of
        (False, f') \<Rightarrow> (finish ops (Some (Runtime_error (''failed to open output file: '' @ output_path))) r, f')
      | (True, f') \<Rightarrow> (r\<lparr>r_phase := File_payload output_path incoming 0\<rparr>, f'))"

text \<open>
  One iteration of a payload loop: receive at most a chunk and write it at its place. The
  loops for a directory's file and for a part differ in the first position and a message.
\<close>

definition chunk_step ::
  "'t transport_ops \<Rightarrow> 'f file_api \<Rightarrow> string \<Rightarrow> string \<Rightarrow> nat \<Rightarrow> nat \<Rightarrow> (nat \<Rightarrow> receive_phase) \<Rightarrow>
   't receiver \<Rightarrow> 'f \<Rightarrow> 't receiver \<times> 'f" where
  "chunk_step ops fs hangup output_path position remaining next_phase r f =
     (case session_receive_into ops (min remaining kChunkBytes) (r_session r) of
        (Inl e, s) \<Rightarrow> (finish ops (Some e) (r\<lparr>r_session := s\<rparr>), f)
      | (Inr bytes, s) \<Rightarrow>
          if bytes = [] then (finish ops (Some (Runtime_error hangup)) (r\<lparr>r_session := s\<rparr>), f)
          else case fs_write fs output_path position bytes f of
                 (False, f') \<Rightarrow>
                   (finish ops (Some (Runtime_error ''failed while writing output file'')) (r\<lparr>r_session := s\<rparr>), f')
               | (True, f') \<Rightarrow>
                   (add_bytes (of_nat (length bytes)) (r\<lparr>r_phase := next_phase (length bytes), r_session := s\<rparr>), f'))"

definition file_payload_step ::
  "'t transport_ops \<Rightarrow> 'f file_api \<Rightarrow> string \<Rightarrow> IncomingHeader \<Rightarrow> nat \<Rightarrow> 't receiver \<Rightarrow> 'f \<Rightarrow> 't receiver \<times> 'f" where
  "file_payload_step ops fs output_path incoming received_total r f =
     (if received_total < unat (ih_payload_size incoming)
      then chunk_step ops fs ''connection closed before directory file completed'' output_path received_total
             (unat (ih_payload_size incoming) - received_total)
             (\<lambda>received. File_payload output_path incoming (received_total + received)) r f
      else (r\<lparr>r_phase := Read_header\<rparr>, apply_permissions fs output_path (ih_offset incoming) f))"

text \<open>
  The section under the mutex: the first thread to enter describes the file and, still
  holding the mutex, creates it and sets its size; the others compare. A thread waits, that
  is, has no step, while another holds the mutex.
\<close>

definition lock_step ::
  "'t transport_ops \<Rightarrow> Options \<Rightarrow> nat \<Rightarrow> IncomingHeader \<Rightarrow> 't receiver \<Rightarrow> ReceiveSharedState \<Rightarrow>
   ('t receiver \<times> ReceiveSharedState) option" where
  "lock_step ops options stream incoming r shared =
     (if sh_mutex shared \<noteq> None then None
      else if \<not> sh_initialized shared
      then Some (r\<lparr>r_phase := Create_output incoming\<rparr>,
                 \<lparr>sh_mutex = Some stream, sh_initialized = True,
                  sh_output_path = join_path (o_output_dir options) (ih_file_name incoming),
                  sh_file_name = ih_file_name incoming, sh_total_size = ih_total_size incoming\<rparr>)
      else if sh_file_name shared \<noteq> ih_file_name incoming \<or> sh_total_size shared \<noteq> ih_total_size incoming
      then Some (finish ops (Some (Runtime_error ''incoming file parts do not describe the same file'')) r, shared)
      else Some (r\<lparr>r_phase := Open_output (sh_output_path shared) incoming\<rparr>, shared))"

definition unlock :: "ReceiveSharedState \<Rightarrow> ReceiveSharedState" where
  "unlock shared = shared\<lparr>sh_mutex := None\<rparr>"

definition create_output_step ::
  "'t transport_ops \<Rightarrow> 'f file_api \<Rightarrow> IncomingHeader \<Rightarrow> 't receiver \<Rightarrow> ReceiveSharedState \<Rightarrow> 'f \<Rightarrow>
   't receiver \<times> ReceiveSharedState \<times> 'f" where
  "create_output_step ops fs incoming r shared f =
     (case fs_truncate fs (sh_output_path shared) f of
        (False, f') \<Rightarrow>
          (finish ops (Some (Runtime_error (''failed to create output file: '' @ sh_output_path shared))) r, unlock shared, f')
      | (True, f') \<Rightarrow> (r\<lparr>r_phase := Resize_output incoming\<rparr>, shared, f'))"

definition resize_output_step ::
  "'t transport_ops \<Rightarrow> 'f file_api \<Rightarrow> IncomingHeader \<Rightarrow> 't receiver \<Rightarrow> ReceiveSharedState \<Rightarrow> 'f \<Rightarrow>
   't receiver \<times> ReceiveSharedState \<times> 'f" where
  "resize_output_step ops fs incoming r shared f =
     (case fs_resize fs (sh_output_path shared) (sh_total_size shared) f of
        (Some e, f') \<Rightarrow> (finish ops (Some e) r, unlock shared, f')
      | (None, f') \<Rightarrow> (r\<lparr>r_phase := Open_output (sh_output_path shared) incoming\<rparr>, unlock shared, f'))"

definition open_output_step ::
  "'t transport_ops \<Rightarrow> 'f file_api \<Rightarrow> string \<Rightarrow> IncomingHeader \<Rightarrow> 't receiver \<Rightarrow> 'f \<Rightarrow> 't receiver" where
  "open_output_step ops fs output_path incoming r f =
     (if \<not> fs_updatable fs output_path f
      then finish ops (Some (Runtime_error (''failed to open output file: '' @ output_path))) r
      else if \<not> seekable (ih_offset incoming)
      then finish ops (Some (Runtime_error ''failed to seek output file'')) r
      else r\<lparr>r_phase := Part_payload output_path incoming 0\<rparr>)"

definition part_payload_step ::
  "'t transport_ops \<Rightarrow> 'f file_api \<Rightarrow> string \<Rightarrow> IncomingHeader \<Rightarrow> nat \<Rightarrow> 't receiver \<Rightarrow> 'f \<Rightarrow> 't receiver \<times> 'f" where
  "part_payload_step ops fs output_path incoming received_part r f =
     (if received_part < unat (ih_payload_size incoming)
      then chunk_step ops fs ''connection closed before file part completed'' output_path
             (unat (ih_offset incoming) + received_part) (unat (ih_payload_size incoming) - received_part)
             (\<lambda>received. Part_payload output_path incoming (received_part + received)) r f
      else (r\<lparr>r_phase := Read_header\<rparr>, f))"

text \<open>The next step of the thread of a stream: none when it has finished or has to wait.\<close>

definition receive_file_part ::
  "'t transport_ops \<Rightarrow> 'f file_api \<Rightarrow> Options \<Rightarrow> nat \<Rightarrow> 't receiver \<Rightarrow> ReceiveSharedState \<Rightarrow> 'f \<Rightarrow>
   ('t receiver \<times> ReceiveSharedState \<times> 'f) option" where
  "receive_file_part ops fs options stream r shared f =
     (let local = (\<lambda>r'. Some (r', shared, f));
          on_files = (\<lambda>(r', f'). Some (r', shared, f')) in
      case r_phase r of
        Connecting \<Rightarrow> local (connect_step ops r)
      | Read_header \<Rightarrow> local (header_step ops options r)
      | Make_directory path \<Rightarrow> on_files (directories_step ops fs path Read_header r f)
      | Link_parent path n \<Rightarrow> on_files (directories_step ops fs (parent_path path) (Link_target path n) r f)
      | Link_target path n \<Rightarrow> local (link_target_step ops path n r)
      | Make_link target path n \<Rightarrow> on_files (make_link_step ops fs target path n r f)
      | File_parent path incoming \<Rightarrow> on_files (file_parent_step ops fs path incoming r f)
      | File_open path incoming \<Rightarrow> on_files (file_open_step ops fs path incoming r f)
      | File_payload path incoming n \<Rightarrow> on_files (file_payload_step ops fs path incoming n r f)
      | Lock_shared incoming \<Rightarrow>
          map_option (\<lambda>(r', shared'). (r', shared', f)) (lock_step ops options stream incoming r shared)
      | Create_output incoming \<Rightarrow> Some (create_output_step ops fs incoming r shared f)
      | Resize_output incoming \<Rightarrow> Some (resize_output_step ops fs incoming r shared f)
      | Open_output path incoming \<Rightarrow> local (open_output_step ops fs path incoming r f)
      | Part_payload path incoming n \<Rightarrow> on_files (part_payload_step ops fs path incoming n r f)
      | Finished \<Rightarrow> None)"

section \<open>All threads\<close>

type_synonym ('t, 'f) receive_state = "'t receiver list \<times> ReceiveSharedState \<times> 'f"

definition new_receiver :: "'t \<Rightarrow> 't receiver" where
  "new_receiver t = \<lparr>r_phase = Connecting, r_session = new_session t, r_result = no_result\<rparr>"

definition start_receivers :: "(TcpEndpoint \<Rightarrow> 't) \<Rightarrow> Options \<Rightarrow> 'f \<Rightarrow> ('t, 'f) receive_state" where
  "start_receivers connection options f =
     (map (\<lambda>stream. new_receiver (connection (endpoint_for_stream options stream))) (streams options), initial_shared, f)"

text \<open>One thread takes a step.\<close>

inductive receive_step ::
  "'t transport_ops \<Rightarrow> 'f file_api \<Rightarrow> Options \<Rightarrow> ('t, 'f) receive_state \<Rightarrow> ('t, 'f) receive_state \<Rightarrow> bool"
  for ops fs options where
  step: "i < length rs \<Longrightarrow> receive_file_part ops fs options i (rs ! i) shared f = Some (r', shared', f') \<Longrightarrow>
    receive_step ops fs options (rs, shared, f) (rs[i := r'], shared', f')"

inductive_simps receive_step_iff: "receive_step ops fs options (rs, shared, f) w"

text \<open>The threads are joined when all have finished, and \<^verbatim>\<open>run_receive\<close> returns or throws.\<close>

definition all_finished :: "'t receiver list \<Rightarrow> bool" where
  "all_finished rs \<longleftrightarrow> (\<forall>r \<in> set rs. r_phase r = Finished)"

definition join_receivers :: "'t receiver list \<Rightarrow> u64 result" where
  "join_receivers rs = join_results (map r_result rs)"

text \<open>
  The check of a part's range adds in 64 bits and wraps: a part that reaches far beyond the
  announced size of the file is accepted.
\<close>

lemma range_check_wraps:
  "dispatch options \<lparr>ih_kind = FilePart, ih_payload_size = - 50, ih_name_size = 1, ih_offset = 100, ih_total_size = 60,
      ih_file_name = ''a''\<rparr> =
    Inr (Lock_shared \<lparr>ih_kind = FilePart, ih_payload_size = - 50, ih_name_size = 1, ih_offset = 100, ih_total_size = 60,
      ih_file_name = ''a''\<rparr>)"
  by (simp add: dispatch_def safe_file_name_def filename_def Let_def)

section \<open>One stream on a good connection\<close>

locale file_reception = reliable_stream ops invar sent pending good + working_store fs files usable
  for ops :: "'t transport_ops" and invar sent pending good
    and fs :: "'f file_api" and files usable
begin

text \<open>One receive and write of a payload loop.\<close>

lemma receive_and_write:
  assumes "up s t" and "good t" and "0 < n" and "pending t \<noteq> []" and "files f path = Some content" and "usable f path"
  obtains bs t' f' where "session_receive_into ops n s = (Inr bs, s\<lparr>s_transport := Some t'\<rparr>)"
    "up (s\<lparr>s_transport := Some t'\<rparr>) t'" "good t'" "pending t = bs @ pending t'" "bs \<noteq> []" "length bs \<le> n"
    "fs_write fs path position bs f = (True, f')" "files f' path = Some (patch content position bs)" "usable f' path"
proof -
  from receive_step [OF assms(1,2), of n] obtain bs t' where
    r: "session_receive_into ops n s = (Inr bs, s\<lparr>s_transport := Some t'\<rparr>)"
      "up (s\<lparr>s_transport := Some t'\<rparr>) t'" "good t'" "pending t = bs @ pending t'" "length bs \<le> n"
      "bs = [] \<Longrightarrow> n = 0 \<or> pending t = []" by blast
  have "bs \<noteq> []" using r(6) assms(3,4) by auto
  from write_works [OF assms(6), of position bs] obtain f' where
    w: "fs_write fs path position bs f = (True, f')" "usable f' path" by blast
  from that [OF r(1-4) \<open>bs \<noteq> []\<close> r(5) w(1) write_law [OF assms(5) w(1)] w(2)] show ?thesis .
qed

lemma payload_loop_writes:
  assumes "up s t" and "good t" and "remaining \<le> length (pending t)"
    and "files f path = Some content" and "length content = received_total" and "usable f path"
  shows "\<exists>s' t' f'. payload_loop ops fs path received_total remaining s f = (Inr (), s', f') \<and> up s' t' \<and> good t' \<and>
    pending t' = drop remaining (pending t) \<and> files f' path = Some (content @ take remaining (pending t))"
  using assms
proof (induction remaining arbitrary: received_total content s t f rule: less_induct)
  case (less remaining)
  show ?case
  proof (cases "remaining = 0")
    case True
    with less.prems show ?thesis by (auto simp: payload_loop.simps)
  next
    case False
    have "0 < min remaining kChunkBytes" "pending t \<noteq> []" using False less.prems(3) by (auto simp: kChunkBytes_def)
    from receive_and_write [OF less.prems(1,2) this less.prems(4,6), of received_total] obtain bs t' f' where
      r: "session_receive_into ops (min remaining kChunkBytes) s = (Inr bs, s\<lparr>s_transport := Some t'\<rparr>)"
        "up (s\<lparr>s_transport := Some t'\<rparr>) t'" "good t'" "pending t = bs @ pending t'" "bs \<noteq> []"
        "length bs \<le> min remaining kChunkBytes" "fs_write fs path received_total bs f = (True, f')"
        "files f' path = Some (patch content received_total bs)" "usable f' path" by blast
    have c: "files f' path = Some (content @ bs)" using r(8) less.prems(5) by (metis patch_append)
    have m: "remaining - length bs < remaining" "remaining - length bs \<le> length (pending t')"
      "length (content @ bs) = received_total + length bs" using False r(4,5) less.prems(3,5) by auto
    from less.IH [OF m(1) r(2,3) m(2) c m(3) r(9)] obtain s'' t'' f'' where
      i: "payload_loop ops fs path (received_total + length bs) (remaining - length bs) (s\<lparr>s_transport := Some t'\<rparr>) f' =
          (Inr (), s'', f'')" "up s'' t''" "good t''" "pending t'' = drop (remaining - length bs) (pending t')"
        "files f'' path = Some ((content @ bs) @ take (remaining - length bs) (pending t'))" by blast
    have "payload_loop ops fs path received_total remaining s f = (Inr (), s'', f'')"
      using False r(1,5,7) i(1) by (subst payload_loop.simps) simp
    moreover have "take remaining (pending t) = bs @ take (remaining - length bs) (pending t')"
      "drop remaining (pending t) = drop (remaining - length bs) (pending t')" using r(4,6) by simp_all
    ultimately show ?thesis using i(2-5) by auto
  qed
qed

lemma receive_payload_to_file_writes:
  assumes "up s t" and "good t" and "pending t = payload @ rest" and "unat payload_size = length payload" and "usable f path"
  shows "\<exists>s' t' f'. receive_payload_to_file ops fs path payload_size s f = (Inr (), s', f') \<and> up s' t' \<and> good t' \<and>
    pending t' = rest \<and> files f' path = Some payload"
proof -
  from truncate_works [OF assms(5)] obtain f1 where f1: "fs_truncate fs path f = (True, f1)" "usable f1 path" by blast
  from payload_loop_writes [OF assms(1,2) _ truncate_law [OF f1(1)] _ f1(2), of "length payload" 0] assms(3,4) f1(1)
  show ?thesis by (simp add: receive_payload_to_file_def)
qed

end

text \<open>A command that reads all its input.\<close>

locale pipe_sink =
  fixes pipes :: "'p pipe_api" and written :: "'p \<Rightarrow> byte list" and reading :: "'p \<Rightarrow> bool"
  assumes open_law: "p_open pipes command p = (True, p') \<Longrightarrow> written p' = []"
    and write_pipe: "reading p \<Longrightarrow> \<exists>p'. p_write pipes bytes p = (length bytes, p') \<and> reading p' \<and> written p' = written p @ bytes"
    and close_law: "written (snd (p_close pipes p)) = written p"

locale archive_reception = reliable_stream ops invar sent pending good + pipe_sink pipes written reading
  for ops :: "'t transport_ops" and invar sent pending good
    and pipes :: "'p pipe_api" and written reading
begin

lemma pipe_loop_copies:
  assumes "up s t" and "good t" and "reading p"
  shows "\<exists>s' t' p'. pipe_loop ops pipes n s p = Some (Inr (n + of_nat (length (pending t))), s', p') \<and> up s' t' \<and>
    reading p' \<and> written p' = written p @ pending t"
  using assms
proof (induction "length (pending t)" arbitrary: n s t p rule: less_induct)
  case less
  from receive_step [OF less.prems(1,2), of kChunkBytes] obtain bs t' where
    r: "session_receive_into ops kChunkBytes s = (Inr bs, s\<lparr>s_transport := Some t'\<rparr>)"
      "up (s\<lparr>s_transport := Some t'\<rparr>) t'" "good t'" "pending t = bs @ pending t'"
      "bs = [] \<Longrightarrow> kChunkBytes = 0 \<or> pending t = []" by blast
  show ?case
  proof (cases "bs = []")
    case True
    then have "pending t = []" using r(5) by (simp add: kChunkBytes_def)
    with True r less.prems(3) show ?thesis by (subst pipe_loop.simps) auto
  next
    case False
    from write_pipe [OF less.prems(3), of bs] obtain p1 where
      w: "p_write pipes bs p = (length bs, p1)" "reading p1" "written p1 = written p @ bs" by blast
    have "length (pending t') < length (pending t)" using False r(4) by simp
    from less.hyps [OF this r(2,3) w(2), of "n + of_nat (length bs)"] obtain s'' t'' p'' where
      "pipe_loop ops pipes (n + of_nat (length bs)) (s\<lparr>s_transport := Some t'\<rparr>) p1 =
         Some (Inr (n + of_nat (length bs) + of_nat (length (pending t'))), s'', p'')" "up s'' t''" "reading p''"
      "written p'' = written p1 @ pending t'" by blast
    with False r(1,4) w(1,3) show ?thesis by (subst pipe_loop.simps) (auto simp: add.assoc)
  qed
qed

end

lemma whole_range: "byte_range_for_stream whole 0 1 = (0, whole)"
proof -
  have "unat (fst (byte_range_for_stream whole 0 1)) = 0" "unat (snd (byte_range_for_stream whole 0 1)) = unat whole"
    using byte_range_nat [of 0 1 whole] by simp_all
  then have "fst (byte_range_for_stream whole 0 1) = 0" "snd (byte_range_for_stream whole 0 1) = whole"
    by (auto simp: unat_eq_0 intro: unsigned_word_eqI)
  then show ?thesis by (simp add: prod_eq_iff)
qed

lemma whole_message:
  assumes "length content < 2 ^ 64"
  shows "file_message name content 1 0 =
    make_header File (of_nat (length content)) (of_nat (length name)) 0 (of_nat (length content)) @ map byte_of_char name @ content"
proof -
  have "unat (of_nat (length content) :: u64) = length content" using assms by (intro unat_of_nat_small) simp
  then show ?thesis by (simp add: file_message_def stream_slice_def whole_range)
qed

lemma safe_name_fixed:
  assumes "safe_file_name name = Inr name"
  shows "name \<noteq> []" "filename name = name" "CHR ''/'' \<notin> set name"
proof -
  show "filename name = name" "name \<noteq> []"
    using assms by (auto simp: safe_file_name_def Let_def split: if_splits)
  then show "CHR ''/'' \<notin> set name" using filename_no_slash [of name] by simp
qed

context file_reception
begin

lemma receive_single_file:
  assumes "connect_session ops ''hyperlink-file'' (new_session t0) = (Inr (), s)"
    and "s_connected s" and "s_transport s = Some t" and "good t"
    and "pending t = file_message name content 1 0"
    and "safe_file_name name = Inr name" and "length name \<le> 4096" and "length content < 2 ^ 64"
    and "usable f (join_path (o_output_dir options) name)"
  shows "\<exists>s' f'. receive_single ops fs pipes options t0 f p = Some (Inr (of_nat (length content)), session_close ops s', f', p) \<and>
    files f' (join_path (o_output_dir options) name) = Some content"
proof -
  have u: "up s t" using assms(2,3) by (simp add: up_def)
  have w: "unat (of_nat (length content) :: u64) = length content" using assms(8) by (intro unat_of_nat_small) simp
  note n = safe_name_fixed [OF assms(6)]
  from receive_header_reads [OF u assms(4) n(1) assms(7)
      assms(5) [unfolded whole_message [OF assms(8)]]] obtain s1 t1 where
    h: "receive_header ops s = (Inr \<lparr>ih_kind = File, ih_payload_size = of_nat (length content),
          ih_name_size = of_nat (length name), ih_offset = 0, ih_total_size = of_nat (length content), ih_file_name = name\<rparr>, s1)"
      "up s1 t1" "good t1" "pending t1 = content" using assms(6) by auto
  from receive_payload_to_file_writes [OF h(2,3) _ w assms(9), of "[]"] h(4) obtain s2 f2 where
    "receive_payload_to_file ops fs (join_path (o_output_dir options) name) (of_nat (length content)) s1 f = (Inr (), s2, f2)"
    "files f2 (join_path (o_output_dir options) name) = Some content" by auto
  with assms(1) h(1) show ?thesis by (intro exI [of _ s2] exI [of _ f2]) (simp add: receive_single_def)
qed

end

text \<open>
  C6. Receiving a file over one stream. If what arrives is the message that a single-stream sender sends
  for a file, and the output file can be created and written, then the receiver returns
  the size of the file, and the output directory holds, under the sent name, exactly its
  bytes. The connection may deliver the message in pieces of any size.
\<close>

theorem receive_single_saves_file:
  assumes "file_reception ops invar sent pending good fs files usable"
    and "connect_session ops ''hyperlink-file'' (new_session t0) = (Inr (), s)"
    and "s_connected s" and "s_transport s = Some t" and "good t"
    and "pending t = file_message name content 1 0"
    and "safe_file_name name = Inr name" and "length name \<le> 4096" and "length content < 2 ^ 64"
    and "usable f (join_path (o_output_dir options) name)"
  shows "\<exists>s' f'. receive_single ops fs pipes options t0 f p = Some (Inr (of_nat (length content)), session_close ops s', f', p) \<and>
    files f' (join_path (o_output_dir options) name) = Some content"
  by (rule file_reception.receive_single_file [OF assms])

text \<open>
  C5. Receiving an archive. If what arrives is an archive message, and the extractor reads its input and
  exits with status zero, then the receiver returns after the sender closed its side, with
  the size of the archive, and the extractor was given exactly its bytes.
\<close>

theorem receive_single_extracts_archive:
  assumes "archive_reception ops invar sent pending good pipes written reading"
    and "connect_session ops ''hyperlink-file'' (new_session t0) = (Inr (), s)"
    and "s_connected s" and "s_transport s = Some t" and "good t"
    and "pending t = make_header DirectoryTar kStreamingPayloadSize (of_nat (length name)) 0 kStreamingPayloadSize @
      map byte_of_char name @ archive"
    and "safe_file_name name = Inr file" and "length name \<le> 4096"
    and "p_open pipes (tar_extract_command (o_output_dir options)) p = (True, p1)" and "reading p1"
    and "\<And>p'. reading p' \<Longrightarrow> fst (p_close pipes p') = 0"
  shows "\<exists>s' p'. receive_single ops fs pipes options t0 f p = Some (Inr (of_nat (length archive)), session_close ops s', f, p') \<and>
    written p' = archive"
proof -
  note R = archive_reception.axioms(1) [OF assms(1)] and P = archive_reception.axioms(2) [OF assms(1)]
  have u: "up s t" using assms(3,4) by (simp add: up_def)
  have "name \<noteq> []" using assms(7) by (auto simp: safe_file_name_def filename_def)
  from reliable_stream.receive_header_reads [OF R u assms(5) this assms(8,6)] assms(7) obtain s1 t1 where
    h: "receive_header ops s = (Inr \<lparr>ih_kind = DirectoryTar, ih_payload_size = kStreamingPayloadSize,
          ih_name_size = of_nat (length name), ih_offset = 0, ih_total_size = kStreamingPayloadSize, ih_file_name = file\<rparr>, s1)"
      "up s1 t1" "good t1" "pending t1 = archive" by auto
  from archive_reception.pipe_loop_copies [OF assms(1) h(2,3) assms(10), of 0] obtain s2 p2 where
    l: "pipe_loop ops pipes 0 s1 p1 = Some (Inr (of_nat (length archive)), s2, p2)" "reading p2"
      "written p2 = written p1 @ archive" by (auto simp: h(4))
  have "receive_stream_to_pipe ops pipes (tar_extract_command (o_output_dir options)) s1 p =
      Some (Inr (of_nat (length archive)), s2, snd (p_close pipes p2))"
    using assms(9) l(1) assms(11) [OF l(2)] by (simp add: receive_stream_to_pipe_def case_prod_unfold)
  moreover have "written (snd (p_close pipes p2)) = archive"
    using l(3) pipe_sink.open_law [OF P assms(9)] pipe_sink.close_law [OF P, of p2] by simp
  ultimately show ?thesis using assms(2) h(1)
    by (intro exI [of _ s2] exI [of _ "snd (p_close pipes p2)"]) (simp add: receive_single_def)
qed

section \<open>The in-memory instances\<close>

interpretation mem_reception: file_reception "tcp_ops mem_api" "tcp_inv mw_open" mem.tcp_sent mem.tcp_pending
  mem.tcp_good mem_fs "\<lambda>f. f" "\<lambda>_ _. True"
  by (intro file_reception.intro mem.tcp_up.reliable_stream_axioms mem_store.working_store_axioms)

text \<open>A command that stores its input and succeeds.\<close>

definition mem_pipe :: "byte list pipe_api" where
  "mem_pipe = \<lparr>p_open = \<lambda>_ _. (True, []), p_write = \<lambda>bytes p. (length bytes, p @ bytes), p_close = \<lambda>p. (0, p)\<rparr>"

interpretation mem_sink: pipe_sink mem_pipe "\<lambda>p. p" "\<lambda>_. True"
  by unfold_locales (auto simp: mem_pipe_def)

interpretation mem_archive: archive_reception "tcp_ops mem_api" "tcp_inv mw_open" mem.tcp_sent mem.tcp_pending
  mem.tcp_good mem_pipe "\<lambda>p. p" "\<lambda>_. True"
  by (intro archive_reception.intro mem.tcp_up.reliable_stream_axioms mem_sink.pipe_sink_axioms)

text \<open>A server whose first client sends the given bytes.\<close>

definition mem_server :: "byte list \<Rightarrow> TcpEndpoint \<Rightarrow> mem_world tcp" where
  "mem_server input endpoint = (make_tcp_server_transport endpoint, mem_start\<lparr>mw_in := (\<lambda>_. input)\<rparr>)"

definition accepted_client :: "byte list \<Rightarrow> TcpEndpoint \<Rightarrow> mem_world tcp" where
  "accepted_client input endpoint = ((make_tcp_server_transport endpoint)\<lparr>tt_listen_socket := 3, tt_data_socket := 4\<rparr>,
     mem_start\<lparr>mw_next := 5, mw_open := {0, 1, 2, 3, 4}, mw_in := (\<lambda>_. input)\<rparr>)"

lemma mem_server_connects:
  "connect_session (tcp_ops mem_api) ''hyperlink-file'' (new_session (mem_server input endpoint)) =
     (Inr (), \<lparr>s_transport = Some (accepted_client input endpoint), s_connected = True\<rparr>)"
proof -
  obtain c where c: "negotiate default_options default_options ''hyperlink-file'' = Inr c"
    using negotiate_Inr_iff [of default_options default_options "''hyperlink-file''"] by auto
  have fds: "insert 4 (insert 3 {0, 1, 2}) = {0, 1, 2, 3, 4 :: int}" by auto
  show ?thesis
    by (simp add: connect_session_def bindE_def session_discover_def new_session_def mem_server_def tcp_ops_def
        tcp_discover_def Let_def session_connect_def c liftE_def tcp_connect_def make_tcp_server_transport_def
        listen_socket_def resolve_endpoint_def mem_api_def mem_fresh_def mem_start_def tune_socket_def
        set_socket_buffer_def set_no_delay_def set_reuse_address_def handle_reset_def kInvalidSocket_def accepted_client_def fds)
qed

lemma accepted_client_good:
  "mem.tcp_good (accepted_client input endpoint)" "mem.tcp_pending (accepted_client input endpoint) = input"
  by (auto simp: mem.tcp_good_def mem.tcp_pending_def accepted_client_def tcp_inv_def held_def
      make_tcp_server_transport_def kInvalidSocket_def mem_start_def)

theorem receive_single_saves_file_witness:
  "\<exists>s' f'. receive_single (tcp_ops mem_api) mem_fs mem_pipe (default_transfer_options\<lparr>o_receive := True, o_output_dir := ''in''\<rparr>)
      (mem_server (file_message ''b.bin'' seven_bytes 1 0) default_endpoint) Map.empty [] =
      Some (Inr 7, session_close (tcp_ops mem_api) s', f', []) \<and> f' ''in/b.bin'' = Some seven_bytes"
proof -
  let ?o = "default_transfer_options\<lparr>o_receive := True, o_output_dir := ''in''\<rparr>"
  have n: "safe_file_name ''b.bin'' = Inr ''b.bin''" "length ''b.bin'' \<le> 4096" "length seven_bytes < 2 ^ 64"
    by (simp_all add: safe_file_name_def filename_def seven_bytes_def)
  have "length seven_bytes = 7" "join_path (o_output_dir ?o) ''b.bin'' = ''in/b.bin''"
    by (simp_all add: seven_bytes_def join_path_def is_absolute_def starts_with_def)
  with receive_single_saves_file [where t = "accepted_client (file_message ''b.bin'' seven_bytes 1 0) default_endpoint"
      and options = ?o and pipes = mem_pipe and f = Map.empty and p = "[]",
      OF mem_reception.file_reception_axioms mem_server_connects _ _ accepted_client_good n TrueI]
  show ?thesis by simp
qed

theorem receive_single_extracts_archive_witness:
  "\<exists>s'. receive_single (tcp_ops mem_api) mem_fs mem_pipe (default_transfer_options\<lparr>o_receive := True\<rparr>)
      (mem_server (make_header DirectoryTar kStreamingPayloadSize 4 0 kStreamingPayloadSize @ map byte_of_char ''docs'' @
         seven_bytes) default_endpoint) Map.empty [] =
      Some (Inr 7, session_close (tcp_ops mem_api) s', Map.empty, seven_bytes)"
proof -
  let ?o = "default_transfer_options\<lparr>o_receive := True\<rparr>"
  let ?m = "make_header DirectoryTar kStreamingPayloadSize (of_nat (length ''docs'')) 0 kStreamingPayloadSize @
    map byte_of_char ''docs'' @ seven_bytes"
  have n: "safe_file_name ''docs'' = Inr ''docs''" "length ''docs'' \<le> 4096" by (simp_all add: safe_file_name_def filename_def)
  have m: "p_open mem_pipe (tar_extract_command (o_output_dir ?o)) [] = (True, [])" "\<And>p'. True \<Longrightarrow> fst (p_close mem_pipe p') = 0"
    by (simp_all add: mem_pipe_def)
  have "length seven_bytes = 7" by (simp add: seven_bytes_def)
  with receive_single_extracts_archive [where t = "accepted_client ?m default_endpoint"
      and fs = mem_fs and f = Map.empty,
      OF mem_archive.archive_reception_axioms mem_server_connects _ _ accepted_client_good n m(1) TrueI m(2)]
  show ?thesis by simp
qed

end
