(* ===== verification/Parallel_Receive.thy ===== *)
theory Parallel_Receive
  imports File_Receiver
begin

text \<open>
  The parallel receiver against the parallel sender: if every stream's connection delivers the
  message the sender sends on it, then however the threads interleave none of them fails,
  they all finish, and the output file is the file that was sent. The proof is an invariant
  over the threads, the shared record and the file, and a measure that every step of every
  thread decreases.
\<close>

definition ready :: "ReceiveSharedState \<Rightarrow> bool" where
  "ready shared \<longleftrightarrow> sh_initialized shared \<and> sh_mutex shared = None"

lemma take_drop_split:
  assumes "take n (drop m xs) = bs @ rest" and "length bs \<le> n"
  shows "bs = take (length bs) (drop m xs)" "rest = take (n - length bs) (drop (m + length bs) xs)"
proof -
  have "bs = take (length bs) (take n (drop m xs))" "rest = drop (length bs) (take n (drop m xs))" using assms(1) by simp_all
  with assms(2) show "bs = take (length bs) (drop m xs)" "rest = take (n - length bs) (drop (m + length bs) xs)"
    by (simp_all add: min_absorb1 drop_take add.commute)
qed

locale parallel_reception = file_reception ops invar sent pending good fs files usable
  for ops :: "'t transport_ops" and invar sent pending good
    and fs :: "'f file_api" and files usable +
  fixes options :: Options and connection :: "TcpEndpoint \<Rightarrow> 't" and session_at :: "nat \<Rightarrow> 't session"
    and name :: string and data :: "byte list"
  assumes many: "1 < o_parallel options"
    and name_ok: "safe_file_name name = Inr name" and name_short: "length name \<le> 4096"
    and data_short: "length data < 2 ^ 63"
    and connects: "i < unat (o_parallel options) \<Longrightarrow>
      connect_session ops ''hyperlink-file'' (new_session (connection (endpoint_for_stream options (of_nat i)))) =
        (Inr (), session_at i)"
    and arrives: "i < unat (o_parallel options) \<Longrightarrow>
      \<exists>t. up (session_at i) t \<and> good t \<and> pending t = file_message name data (o_parallel options) (of_nat i)"
begin

abbreviation "parallel \<equiv> unat (o_parallel options)"
abbreviation "out \<equiv> join_path (o_output_dir options) name"
abbreviation "start \<equiv> range_start (length data) parallel"

definition amount :: "nat \<Rightarrow> nat" where
  "amount i = start (Suc i) - start i"

abbreviation "part i k \<equiv> take (amount i - k) (drop (start i + k) data)"
abbreviation "message i \<equiv> file_message name data (o_parallel options) (of_nat i)"

definition header :: "nat \<Rightarrow> IncomingHeader" where
  "header i = \<lparr>ih_kind = FilePart, ih_payload_size = of_nat (amount i), ih_name_size = of_nat (length name),
     ih_offset = of_nat (start i), ih_total_size = of_nat (length data), ih_file_name = name\<rparr>"

lemma start_le: "i \<le> parallel \<Longrightarrow> start i \<le> length data"
  using many by (intro range_start_le) (simp_all add: word_less_nat_alt)

lemma start_Suc: "start i \<le> start (Suc i)" "start i + amount i = start (Suc i)"
  using range_start_mono [of i "Suc i"] by (simp_all add: amount_def)

lemma amounts:
  assumes "i < parallel"
  shows "unat (of_nat (start i) :: u64) = start i" "unat (of_nat (amount i) :: u64) = amount i"
    "unat (of_nat (length data) :: u64) = length data" "start i + amount i \<le> length data"
proof -
  have "start i \<le> length data" "start (Suc i) \<le> length data" using assms start_le by simp_all
  with data_short start_Suc [of i] show "unat (of_nat (start i) :: u64) = start i" "unat (of_nat (amount i) :: u64) = amount i"
    "unat (of_nat (length data) :: u64) = length data" "start i + amount i \<le> length data"
    by (auto intro!: unat_of_nat_small simp: amount_def [symmetric])
qed

lemma message_eq:
  assumes "i < parallel"
  shows "message i = make_header FilePart (of_nat (amount i)) (of_nat (length name)) (of_nat (start i)) (of_nat (length data)) @
    map byte_of_char name @ part i 0"
proof -
  let ?r = "byte_range_for_stream (of_nat (length data)) (of_nat i) (o_parallel options)"
  have u: "unat (of_nat i :: u32) = i" using assms unat_less_power [of "o_parallel options"] by (intro unat_of_nat_small) simp
  then have "of_nat i < o_parallel options" using assms by (simp add: word_less_nat_alt)
  from byte_range_nat [OF this, of "of_nat (length data)"] u amounts [OF assms]
  have "unat (fst ?r) = start i" "unat (snd ?r) = amount i" by (simp_all add: range_start_Suc amount_def)
  then have "of_nat (unat (fst ?r)) = (of_nat (start i) :: u64)" "of_nat (unat (snd ?r)) = (of_nat (amount i) :: u64)"
    by (simp_all only:)
  then have "fst ?r = of_nat (start i)" "snd ?r = of_nat (amount i)" by simp_all
  then have "?r = (of_nat (start i), of_nat (amount i))" by (simp add: prod_eq_iff)
  then show ?thesis using many amounts [OF assms] by (simp add: file_message_def stream_slice_def)
qed

lemma dispatch_header:
  assumes "i < parallel"
  shows "dispatch options (header i) = Inr (Lock_shared (header i))"
proof -
  have "of_nat (start i) + of_nat (amount i) = (of_nat (start (Suc i)) :: u64)" by (metis of_nat_add start_Suc(2))
  moreover have "unat (of_nat (start (Suc i)) :: u64) = start (Suc i)" "start (Suc i) \<le> length data"
    using assms start_le [of "Suc i"] data_short by (auto intro!: unat_of_nat_small)
  ultimately have "\<not> of_nat (start i) + of_nat (amount i) > (of_nat (length data) :: u64)"
    using amounts(3) [OF assms] by (simp add: word_less_nat_alt)
  then show ?thesis by (simp add: dispatch_def header_def name_ok Let_def)
qed

text \<open>A thread that has counted some bytes and still has some to read.\<close>

definition holds :: "nat \<Rightarrow> byte list \<Rightarrow> 't receiver \<Rightarrow> bool" where
  "holds k rest r \<longleftrightarrow> r_result r = \<lparr>sr_bytes = of_nat k, sr_error = None\<rparr> \<and>
     (\<exists>t. up (r_session r) t \<and> good t \<and> pending t = rest)"

definition thread_inv :: "ReceiveSharedState \<Rightarrow> nat \<Rightarrow> 't receiver \<Rightarrow> bool" where
  "thread_inv shared i r \<longleftrightarrow>
     (case r_phase r of
        Connecting \<Rightarrow> r = new_receiver (connection (endpoint_for_stream options (of_nat i)))
      | Read_header \<Rightarrow> holds 0 (message i) r \<or> ready shared \<and> holds (amount i) [] r
      | Lock_shared incoming \<Rightarrow> incoming = header i \<and> holds 0 (part i 0) r
      | Create_output incoming \<Rightarrow> incoming = header i \<and> holds 0 (part i 0) r \<and> sh_mutex shared = Some i
      | Resize_output incoming \<Rightarrow> incoming = header i \<and> holds 0 (part i 0) r \<and> sh_mutex shared = Some i
      | Open_output path incoming \<Rightarrow> path = out \<and> incoming = header i \<and> holds 0 (part i 0) r \<and> ready shared
      | Part_payload path incoming k \<Rightarrow>
          path = out \<and> incoming = header i \<and> k \<le> amount i \<and> holds k (part i k) r \<and> ready shared
      | Finished \<Rightarrow> r_result r = \<lparr>sr_bytes = of_nat (amount i), sr_error = None\<rparr> \<and> ready shared
      | _ \<Rightarrow> False)"

definition shared_inv :: "'t receiver list \<Rightarrow> ReceiveSharedState \<Rightarrow> 'f \<Rightarrow> bool" where
  "shared_inv rs shared f \<longleftrightarrow>
     (sh_initialized shared \<longrightarrow> sh_output_path shared = out \<and> sh_file_name shared = name \<and>
        sh_total_size shared = of_nat (length data)) \<and>
     (\<forall>j. sh_mutex shared = Some j \<longrightarrow> sh_initialized shared \<and> j < parallel \<and>
        (r_phase (rs ! j) = Create_output (header j) \<or>
         r_phase (rs ! j) = Resize_output (header j) \<and> files f out = Some []))"

text \<open>The bytes counted by each thread are in their place.\<close>

definition file_inv :: "'t receiver list \<Rightarrow> 'f \<Rightarrow> bool" where
  "file_inv rs f \<longleftrightarrow>
     (\<exists>content. files f out = Some content \<and> length content = length data \<and>
        (\<forall>i < parallel. \<forall>k. start i \<le> k \<and> k < start i + unat (sr_bytes (r_result (rs ! i))) \<and> k < length data \<longrightarrow>
           content ! k = data ! k))"

definition receive_inv :: "('t, 'f) receive_state \<Rightarrow> bool" where
  "receive_inv w \<longleftrightarrow>
     (case w of (rs, shared, f) \<Rightarrow> length rs = parallel \<and> usable f out \<and>
        (\<forall>i < parallel. thread_inv shared i (rs ! i)) \<and> shared_inv rs shared f \<and> (ready shared \<longrightarrow> file_inv rs f))"

text \<open>What is left for a thread.\<close>

definition unread :: "'t receiver \<Rightarrow> nat" where
  "unread r = (case s_transport (r_session r) of None \<Rightarrow> 0 | Some t \<Rightarrow> length (pending t))"

definition work :: "nat \<Rightarrow> 't receiver \<Rightarrow> nat" where
  "work i r =
     (case r_phase r of
        Connecting \<Rightarrow> length (message i) + 2 | Read_header \<Rightarrow> unread r + 1 | Lock_shared _ \<Rightarrow> unread r + 6
      | Create_output _ \<Rightarrow> unread r + 5 | Resize_output _ \<Rightarrow> unread r + 4 | Open_output _ _ \<Rightarrow> unread r + 3
      | Part_payload _ _ _ \<Rightarrow> unread r + 2 | _ \<Rightarrow> 0)"

lemma holds_unread: "holds k rest r \<Longrightarrow> unread r = length rest"
  by (auto simp: holds_def unread_def up_def)

lemma holds_phase [simp]: "holds k rest (r\<lparr>r_phase := phase\<rparr>) \<longleftrightarrow> holds k rest r" "unread (r\<lparr>r_phase := phase\<rparr>) = unread r"
  by (simp_all add: holds_def unread_def)

text \<open>Replacing one thread's state.\<close>

lemma replace_local:
  assumes "receive_inv (rs, shared, f)" and "i < parallel" and "thread_inv shared i r'" and "sh_mutex shared \<noteq> Some i"
    and "sr_bytes (r_result r') = sr_bytes (r_result (rs ! i))"
  shows "receive_inv (rs[i := r'], shared, f)"
proof -
  have "sr_bytes (r_result (rs[i := r'] ! j)) = sr_bytes (r_result (rs ! j))" for j
    using assms(1,2,5) by (cases "j = i") (simp_all add: receive_inv_def)
  then have "file_inv (rs[i := r']) f \<longleftrightarrow> file_inv rs f" by (simp add: file_inv_def)
  moreover have "shared_inv (rs[i := r']) shared f \<longleftrightarrow> shared_inv rs shared f"
    using assms(4) by (auto simp: shared_inv_def nth_list_update)
  moreover have "thread_inv shared j (rs[i := r'] ! j)" if "j < parallel" for j
    using that assms(1-3) by (cases "j = i") (simp_all add: receive_inv_def)
  ultimately show ?thesis using assms(1) by (simp add: receive_inv_def)
qed

text \<open>Steps that leave the shared record and the file alone.\<close>

definition local_step :: "ReceiveSharedState \<Rightarrow> 'f \<Rightarrow> nat \<Rightarrow> 't receiver \<Rightarrow> bool" where
  "local_step shared f i r \<longleftrightarrow>
     (\<exists>r'. receive_file_part ops fs options i r shared f = Some (r', shared, f) \<and> thread_inv shared i r' \<and>
        work i r' < work i r \<and> sr_bytes (r_result r') = sr_bytes (r_result r))"

lemma connect_ok:
  assumes "thread_inv shared i r" and "i < parallel" and "r_phase r = Connecting"
  shows "local_step shared f i r"
proof -
  let ?r = "r\<lparr>r_phase := Read_header, r_session := session_at i\<rparr>"
  from assms(1,3) have r: "r = new_receiver (connection (endpoint_for_stream options (of_nat i)))" by (simp add: thread_inv_def)
  then have "connect_step ops r = ?r" using connects [OF assms(2)] by (simp add: connect_step_def new_receiver_def)
  then have "receive_file_part ops fs options i r shared f = Some (?r, shared, f)"
    using assms(3) by (simp add: receive_file_part_def)
  moreover have "holds 0 (message i) ?r" using arrives [OF assms(2)] r by (simp add: holds_def new_receiver_def no_result_def)
  moreover from holds_unread [OF this] have "work i ?r < work i r" using assms(3) by (simp add: work_def)
  ultimately show ?thesis by (auto simp: local_step_def thread_inv_def)
qed

lemma first_header_ok:
  assumes "i < parallel" and "r_phase r = Read_header" and "holds 0 (message i) r"
  shows "local_step shared f i r"
proof -
  from assms(3) obtain t where t: "up (r_session r) t" "good t" "pending t = message i" by (auto simp: holds_def)
  have "name \<noteq> []" by (rule safe_name_fixed [OF name_ok])
  from receive_header_optional_reads [OF t(1,2) this name_short t(3) [unfolded message_eq [OF assms(1)]]] obtain s' t' where
    h: "receive_header_optional ops (r_session r) = (Inr (Some (header i)), s')" "up s' t'" "good t'" "pending t' = part i 0"
    by (auto simp: header_def)
  let ?r = "r\<lparr>r_phase := Lock_shared (header i), r_session := s'\<rparr>"
  have "receive_file_part ops fs options i r shared f = Some (?r, shared, f)"
    using assms(2) h(1) dispatch_header [OF assms(1)] by (simp add: receive_file_part_def header_step_def)
  moreover have "holds 0 (part i 0) ?r" using h(2-4) assms(3) by (auto simp: holds_def)
  moreover from holds_unread [OF this] holds_unread [OF assms(3)] have "work i ?r < work i r"
    using assms(2) message_eq [OF assms(1)] by (simp add: work_def)
  ultimately show ?thesis by (auto simp: local_step_def thread_inv_def)
qed

lemma last_header_ok:
  assumes "r_phase r = Read_header" and "holds (amount i) [] r" and "ready shared"
  shows "local_step shared f i r"
proof -
  from assms(2) obtain t where t: "up (r_session r) t" "good t" "pending t = []" by (auto simp: holds_def)
  from header_loop_end [OF this] obtain s' where "header_loop ops [] (r_session r) = (Inr None, s')" by blast
  then have "receive_file_part ops fs options i r shared f = Some (finish ops None (r\<lparr>r_session := s'\<rparr>), shared, f)"
    using assms(1) by (simp add: receive_file_part_def header_step_def receive_header_optional_def bindE_def returnE_def)
  with assms show ?thesis by (auto simp: local_step_def thread_inv_def finish_def holds_def work_def)
qed

lemma join_lock_ok:
  assumes "thread_inv shared i r" and "r_phase r = Lock_shared incoming" and "ready shared" and "shared_inv rs shared f"
  shows "local_step shared f i r"
proof -
  from assms(1,2) have i: "incoming = header i" "holds 0 (part i 0) r" by (simp_all add: thread_inv_def)
  have "receive_file_part ops fs options i r shared f = Some (r\<lparr>r_phase := Open_output out (header i)\<rparr>, shared, f)"
    using assms(2-4) i(1) by (simp add: receive_file_part_def lock_step_def ready_def shared_inv_def header_def)
  with i assms(2,3) show ?thesis by (auto simp: local_step_def thread_inv_def work_def)
qed

lemma open_ok:
  assumes "thread_inv shared i r" and "i < parallel" and "r_phase r = Open_output path incoming" and "usable f out"
  shows "local_step shared f i r"
proof -
  from assms(1,3) have i: "path = out" "incoming = header i" "holds 0 (part i 0) r" "ready shared" by (simp_all add: thread_inv_def)
  have "seekable (ih_offset (header i))"
    using amounts [OF assms(2)] data_short by (simp add: seekable_def header_def)
  then have "receive_file_part ops fs options i r shared f = Some (r\<lparr>r_phase := Part_payload out (header i) 0\<rparr>, shared, f)"
    using assms(3) i(1,2) update_works [OF assms(4)] by (simp add: receive_file_part_def open_output_step_def)
  with i assms(3) show ?thesis by (auto simp: local_step_def thread_inv_def work_def)
qed

lemma end_of_part_ok:
  assumes "thread_inv shared i r" and "i < parallel" and "r_phase r = Part_payload path incoming k" and "\<not> k < amount i"
  shows "local_step shared f i r"
proof -
  from assms(1,3,4) have i: "incoming = header i" "k = amount i" "holds (amount i) [] r" "ready shared"
    by (auto simp: thread_inv_def)
  have "receive_file_part ops fs options i r shared f = Some (r\<lparr>r_phase := Read_header\<rparr>, shared, f)"
    using assms(3) i(1,2) amounts [OF assms(2)] by (simp add: receive_file_part_def part_payload_step_def header_def)
  with i assms(3) show ?thesis by (auto simp: local_step_def thread_inv_def work_def)
qed

text \<open>The thread that creates the file.\<close>

lemma unready_zero:
  assumes "receive_inv (rs, shared, f)" and "\<not> ready shared" and "i < parallel"
  shows "sr_bytes (r_result (rs ! i)) = 0"
proof -
  have "thread_inv shared i (rs ! i)" using assms(1,3) by (simp add: receive_inv_def)
  with assms(2) show ?thesis
    by (cases "r_phase (rs ! i)") (auto simp: thread_inv_def holds_def new_receiver_def no_result_def)
qed

lemma thread_inv_unready:
  assumes "thread_inv shared i r" and "\<not> ready shared" and "sh_mutex shared \<noteq> Some i"
  shows "thread_inv shared' i r"
  using assms by (cases "r_phase r") (auto simp: thread_inv_def)

lemma take_lock_ok:
  assumes "receive_inv (rs, shared, f)" and "i < parallel" and "r_phase (rs ! i) = Lock_shared incoming"
    and "sh_mutex shared = None" and "\<not> sh_initialized shared"
  shows "\<exists>r' shared'. receive_file_part ops fs options i (rs ! i) shared f = Some (r', shared', f) \<and>
    receive_inv (rs[i := r'], shared', f) \<and> work i r' < work i (rs ! i)"
proof -
  let ?r = "(rs ! i)\<lparr>r_phase := Create_output (header i)\<rparr>"
  let ?s = "\<lparr>sh_mutex = Some i, sh_initialized = True, sh_output_path = out, sh_file_name = name,
    sh_total_size = of_nat (length data)\<rparr>"
  from assms(1-3) have i: "incoming = header i" "holds 0 (part i 0) (rs ! i)" "length rs = parallel"
    by (force simp: receive_inv_def thread_inv_def)+
  have "receive_file_part ops fs options i (rs ! i) shared f = Some (?r, ?s, f)"
    using assms(3-5) i(1) by (simp add: receive_file_part_def lock_step_def header_def)
  moreover have "thread_inv ?s j (rs[i := ?r] ! j)" if "j < parallel" for j
  proof (cases "j = i")
    case True
    with i assms(2) show ?thesis by (simp add: thread_inv_def)
  next
    case False
    then show ?thesis using assms(1,4,5) that thread_inv_unready [of shared j "rs ! j"] by (simp add: receive_inv_def ready_def)
  qed
  then have "receive_inv (rs[i := ?r], ?s, f)"
    using assms(1,2) i(3) by (simp add: receive_inv_def shared_inv_def ready_def)
  ultimately show ?thesis using assms(3) by (auto simp: work_def)
qed

lemma create_ok:
  assumes "receive_inv (rs, shared, f)" and "i < parallel" and "r_phase (rs ! i) = Create_output incoming"
  shows "\<exists>r' f'. receive_file_part ops fs options i (rs ! i) shared f = Some (r', shared, f') \<and>
    receive_inv (rs[i := r'], shared, f') \<and> work i r' < work i (rs ! i)"
proof -
  let ?r = "(rs ! i)\<lparr>r_phase := Resize_output (header i)\<rparr>"
  from assms have inv: "length rs = parallel" "usable f out" "\<And>j. j < parallel \<Longrightarrow> thread_inv shared j (rs ! j)" "shared_inv rs shared f"
    by (simp_all add: receive_inv_def)
  from inv(3) [OF assms(2)] assms(3) have i: "incoming = header i" "holds 0 (part i 0) (rs ! i)" "sh_mutex shared = Some i"
    by (simp_all add: thread_inv_def)
  from inv(4) i(3) have s: "sh_initialized shared" "sh_output_path shared = out" by (auto simp: shared_inv_def)
  from truncate_works [OF inv(2)] obtain f' where f': "fs_truncate fs out f = (True, f')" "usable f' out" by blast
  have "receive_file_part ops fs options i (rs ! i) shared f = Some (?r, shared, f')"
    using assms(3) i(1) s f'(1) by (simp add: receive_file_part_def create_output_step_def)
  moreover have "thread_inv shared j (rs[i := ?r] ! j)" if "j < parallel" for j
    using i inv(1,3) assms(2) that by (cases "j = i") (simp_all add: thread_inv_def)
  then have "receive_inv (rs[i := ?r], shared, f')"
    using inv f'(2) truncate_law [OF f'(1)] i(3) assms(2) by (auto simp: receive_inv_def shared_inv_def ready_def)
  ultimately show ?thesis using assms(3) by (auto simp: work_def)
qed

lemma resize_ok:
  assumes "receive_inv (rs, shared, f)" and "i < parallel" and "r_phase (rs ! i) = Resize_output incoming"
  shows "\<exists>r' shared' f'. receive_file_part ops fs options i (rs ! i) shared f = Some (r', shared', f') \<and>
    receive_inv (rs[i := r'], shared', f') \<and> work i r' < work i (rs ! i)"
proof -
  let ?r = "(rs ! i)\<lparr>r_phase := Open_output out (header i)\<rparr>"
  from assms(1) have inv: "length rs = parallel" "usable f out" "\<And>j. j < parallel \<Longrightarrow> thread_inv shared j (rs ! j)" "shared_inv rs shared f"
    by (simp_all add: receive_inv_def)
  from inv(3) [OF assms(2)] assms(3) have i: "incoming = header i" "holds 0 (part i 0) (rs ! i)" "sh_mutex shared = Some i"
    by (simp_all add: thread_inv_def)
  from inv(4) i(3) assms(3) have s: "sh_initialized shared" "sh_output_path shared = out" "sh_file_name shared = name"
    "sh_total_size shared = of_nat (length data)" "files f out = Some []" by (auto simp: shared_inv_def)
  have unready: "\<not> ready shared" using i(3) by (simp add: ready_def)
  from resize_works [OF inv(2)] obtain f' where f': "fs_resize fs out (of_nat (length data)) f = (None, f')" "usable f' out" by blast
  from resize_law [OF s(5) f'(1)] amounts(3) [OF assms(2)] have c: "files f' out = Some (resized [] (length data))" by simp
  have "receive_file_part ops fs options i (rs ! i) shared f = Some (?r, unlock shared, f')"
    using assms(3) i(1) s f'(1) by (simp add: receive_file_part_def resize_output_step_def)
  moreover have "thread_inv (unlock shared) j (rs[i := ?r] ! j)" if "j < parallel" for j
  proof (cases "j = i")
    case True
    with i s(1) inv(1) assms(2) show ?thesis by (simp add: thread_inv_def ready_def unlock_def)
  next
    case False
    with thread_inv_unready [OF inv(3) [OF that] unready] i(3) show ?thesis by simp
  qed
  moreover have "sr_bytes (r_result (rs[i := ?r] ! j)) = 0" if "j < parallel" for j
    using unready_zero [OF assms(1) unready that] inv(1) assms(2) by (cases "j = i") simp_all
  then have "file_inv (rs[i := ?r]) f'" using c by (auto simp: file_inv_def)
  ultimately have "receive_file_part ops fs options i (rs ! i) shared f = Some (?r, unlock shared, f')"
    "receive_inv (rs[i := ?r], unlock shared, f')"
    using inv(1) f'(2) s by (auto simp: receive_inv_def shared_inv_def unlock_def)
  then show ?thesis using assms(3) by (auto simp: work_def)
qed

text \<open>A piece of a part is written: it is data of the file at its own position.\<close>

lemma file_inv_patch:
  assumes "file_inv rs f" and "i < parallel" and "length rs = parallel" and "files f out = Some content"
    and "sr_bytes (r_result (rs ! i)) = of_nat k" and "sr_bytes (r_result r') = of_nat (k + length bs)"
    and "bs = take (length bs) (drop (start i + k) data)" and "k + length bs \<le> amount i"
    and "files f' out = Some (patch content (start i + k) bs)"
  shows "file_inv (rs[i := r']) f'"
proof -
  have c: "length content = length data"
    "\<And>j m. j < parallel \<Longrightarrow> start j \<le> m \<Longrightarrow> m < start j + unat (sr_bytes (r_result (rs ! j))) \<Longrightarrow> m < length data \<Longrightarrow>
      content ! m = data ! m"
    using assms(1,4) by (auto simp: file_inv_def)
  have le: "start i + k + length bs \<le> length content" using amounts(4) [OF assms(2)] assms(8) c(1) by simp
  have u: "unat (of_nat (k + length bs) :: u64) = k + length bs" "unat (of_nat k :: u64) = k"
    using amounts(4) [OF assms(2)] assms(8) data_short by (intro unat_of_nat_small; simp)+
  have "patch content (start i + k) bs ! m = data ! m"
    if "j < parallel" "start j \<le> m" "m < start j + unat (sr_bytes (r_result (rs[i := r'] ! j)))" "m < length data" for j m
  proof (cases "start i + k \<le> m \<and> m < start i + k + length bs")
    case True
    then obtain d where d: "m = start i + k + d" "d < length bs" by (auto simp: le_iff_add)
    then have "bs ! d = data ! m" using that(4) by (subst assms(7)) simp
    then have "bs ! (m - (start i + k)) = data ! m" using d(1) by simp
    with True nth_patch [OF le, of m] that(4) c(1) show ?thesis by simp
  next
    case False
    have "m < start j + unat (sr_bytes (r_result (rs ! j)))"
    proof (cases "j = i")
      case True
      with False that(2,3) assms(2,3,5,6) u show ?thesis by simp
    qed (use that(3) in simp)
    with c that nth_patch [OF le, of m] False show ?thesis by auto
  qed
  with assms(9) length_patch [OF le] c(1) show ?thesis by (auto simp: file_inv_def)
qed

lemma chunk_ok:
  assumes "receive_inv (rs, shared, f)" and "i < parallel" and "r_phase (rs ! i) = Part_payload path incoming k" and "k < amount i"
  shows "\<exists>r' f'. receive_file_part ops fs options i (rs ! i) shared f = Some (r', shared, f') \<and>
    receive_inv (rs[i := r'], shared, f') \<and> work i r' < work i (rs ! i)"
proof -
  from assms(1) have inv: "length rs = parallel" "usable f out" "\<And>j. j < parallel \<Longrightarrow> thread_inv shared j (rs ! j)" "shared_inv rs shared f"
    by (simp_all add: receive_inv_def)
  from inv(3) [OF assms(2)] assms(3) have i: "path = out" "incoming = header i" "holds k (part i k) (rs ! i)" "ready shared"
    by (simp_all add: thread_inv_def)
  from i(4) assms(1) have fi: "file_inv rs f" by (simp add: receive_inv_def)
  then obtain content where content: "files f out = Some content" by (auto simp: file_inv_def)
  from i(3) obtain t where t: "up (r_session (rs ! i)) t" "good t" "pending t = part i k" by (auto simp: holds_def)
  have a: "start i + amount i \<le> length data" "unat (of_nat (amount i) :: u64) = amount i" "unat (of_nat (start i) :: u64) = start i"
    using amounts [OF assms(2)] by simp_all
  have "0 < min (amount i - k) kChunkBytes" "pending t \<noteq> []" using assms(4) t(3) a by (auto simp: kChunkBytes_def)
  from receive_and_write [OF t(1,2) this content inv(2), of "start i + k"] obtain bs t' f' where
    w: "session_receive_into ops (min (amount i - k) kChunkBytes) (r_session (rs ! i)) =
          (Inr bs, (r_session (rs ! i))\<lparr>s_transport := Some t'\<rparr>)"
      "up ((r_session (rs ! i))\<lparr>s_transport := Some t'\<rparr>) t'" "good t'" "pending t = bs @ pending t'" "bs \<noteq> []"
      "length bs \<le> min (amount i - k) kChunkBytes" "fs_write fs out (start i + k) bs f = (True, f')"
      "files f' out = Some (patch content (start i + k) bs)" "usable f' out" by blast
  let ?r = "add_bytes (of_nat (length bs)) ((rs ! i)\<lparr>r_phase := Part_payload out (header i) (k + length bs),
     r_session := (r_session (rs ! i))\<lparr>s_transport := Some t'\<rparr>\<rparr>)"
  have le: "k + length bs \<le> amount i" using w(6) assms(4) by (auto simp: min_def split: if_splits)
  have bs: "bs = take (length bs) (drop (start i + k) data)" "pending t' = part i (k + length bs)"
    using take_drop_split [of "amount i - k" "start i + k" data bs "pending t'"] w(4) t(3) le by (simp_all add: add.assoc)
  have "receive_file_part ops fs options i (rs ! i) shared f = Some (?r, shared, f')"
    using assms(3,4) i(1,2) w(1,5,7) a by (simp add: receive_file_part_def part_payload_step_def chunk_step_def header_def)
  moreover have h: "holds (k + length bs) (part i (k + length bs)) ?r" "r_phase ?r = Part_payload out (header i) (k + length bs)"
    using i(3) w(2,3) bs(2) by (auto simp: holds_def add_bytes_def)
  then have "thread_inv shared i ?r" using i(4) le by (simp add: thread_inv_def)
  then have "thread_inv shared j (rs[i := ?r] ! j)" if "j < parallel" for j
    using inv(1,3) that by (cases "j = i") simp_all
  moreover have "file_inv (rs[i := ?r]) f'"
    using h(1) i(3) by (intro file_inv_patch [OF fi assms(2) inv(1) content _ _ bs(1) le w(8)]) (auto simp: holds_def)
  moreover have "shared_inv (rs[i := ?r]) shared f'" using inv(4) i(4) by (simp add: shared_inv_def ready_def)
  moreover have "unread ?r = length (pending t')" "unread (rs ! i) = length bs + length (pending t')"
    using t(1) w(4) by (simp_all add: unread_def add_bytes_def up_def)
  then have "work i ?r < work i (rs ! i)" using h(2) assms(3) w(5) by (simp add: work_def)
  ultimately show ?thesis using inv(1) w(9) by (auto simp: receive_inv_def)
qed

text \<open>Every thread that does not wait for the mutex has a step, and every step keeps the invariant.\<close>

lemma local_step_ok:
  assumes "local_step shared f i (rs ! i)" and "receive_inv (rs, shared, f)" and "i < parallel" and "sh_mutex shared \<noteq> Some i"
  shows "\<exists>r' shared' f'. receive_file_part ops fs options i (rs ! i) shared f = Some (r', shared', f') \<and>
    receive_inv (rs[i := r'], shared', f') \<and> work i r' < work i (rs ! i)"
  using assms replace_local [OF assms(2,3) _ assms(4)] by (auto simp: local_step_def)

lemma step_ok:
  assumes "receive_inv (rs, shared, f)" and "i < parallel" and "r_phase (rs ! i) \<noteq> Finished"
    and "sh_mutex shared = None \<or> sh_mutex shared = Some i \<or> (\<forall>incoming. r_phase (rs ! i) \<noteq> Lock_shared incoming)"
  shows "\<exists>r' shared' f'. receive_file_part ops fs options i (rs ! i) shared f = Some (r', shared', f') \<and>
    receive_inv (rs[i := r'], shared', f') \<and> work i r' < work i (rs ! i)"
proof -
  have t: "thread_inv shared i (rs ! i)" and u: "usable f out" and s: "shared_inv rs shared f"
    using assms(1,2) by (simp_all add: receive_inv_def)
  have mine: "sh_mutex shared \<noteq> Some i" if "\<forall>incoming. r_phase (rs ! i) \<noteq> Create_output incoming"
    "\<forall>incoming. r_phase (rs ! i) \<noteq> Resize_output incoming" using s that by (auto simp: shared_inv_def)
  note local = local_step_ok [OF _ assms(1,2)]
  show ?thesis
  proof (cases "r_phase (rs ! i)")
    case Connecting
    with mine show ?thesis by (intro local connect_ok [OF t assms(2)]) auto
  next
    case Read_header
    with t consider "holds 0 (message i) (rs ! i)" | "holds (amount i) [] (rs ! i)" "ready shared" by (auto simp: thread_inv_def)
    then have "local_step shared f i (rs ! i)"
      by cases (use first_header_ok [OF assms(2) Read_header] last_header_ok [OF Read_header] in blast)+
    with mine Read_header show ?thesis by (intro local) auto
  next
    case (Lock_shared incoming)
    with assms(4) mine have free: "sh_mutex shared = None" by auto
    show ?thesis
    proof (cases "sh_initialized shared")
      case True
      then have "ready shared" using free by (simp add: ready_def)
      from join_lock_ok [OF t Lock_shared this s] free show ?thesis by (intro local) auto
    next
      case False
      from take_lock_ok [OF assms(1,2) Lock_shared free False] show ?thesis by blast
    qed
  next
    case (Create_output incoming)
    from create_ok [OF assms(1,2) this] show ?thesis by blast
  next
    case (Resize_output incoming)
    from resize_ok [OF assms(1,2) this] show ?thesis .
  next
    case (Open_output path incoming)
    with mine show ?thesis by (intro local open_ok [OF t assms(2) Open_output u]) auto
  next
    case (Part_payload path incoming k)
    show ?thesis
    proof (cases "k < amount i")
      case True
      from chunk_ok [OF assms(1,2) Part_payload True] show ?thesis by blast
    next
      case False
      with mine Part_payload show ?thesis by (intro local end_of_part_ok [OF t assms(2) Part_payload]) auto
    qed
  qed (use t assms(3) in \<open>auto simp: thread_inv_def\<close>)
qed

lemma blocked_None:
  assumes "r_phase r = Lock_shared incoming" and "sh_mutex shared = Some j"
  shows "receive_file_part ops fs options i r shared f = None"
  using assms by (simp add: receive_file_part_def lock_step_def)

definition total_work :: "('t, 'f) receive_state \<Rightarrow> nat" where
  "total_work w = (\<Sum>i < parallel. work i (fst w ! i))"

lemma step_inv:
  assumes "receive_inv w" and "receive_step ops fs options w w'"
  shows "receive_inv w' \<and> total_work w' < total_work w"
  using assms(2,1)
proof (cases rule: receive_step.cases)
  case (step i rs shared f r' shared' f')
  have i: "i < parallel" "length rs = parallel" using step assms(1) by (auto simp: receive_inv_def)
  have "r_phase (rs ! i) \<noteq> Finished" using step(4) by (auto simp: receive_file_part_def)
  moreover have "sh_mutex shared = None \<or> sh_mutex shared = Some i \<or> (\<forall>incoming. r_phase (rs ! i) \<noteq> Lock_shared incoming)"
    using step(4) blocked_None [of "rs ! i"] by fastforce
  ultimately obtain r1 s1 f1 where "receive_file_part ops fs options i (rs ! i) shared f = Some (r1, s1, f1)"
    "receive_inv (rs[i := r1], s1, f1)" "work i r1 < work i (rs ! i)" using step_ok assms(1) step(1) i(1) by blast
  with step(4) have k: "receive_inv (rs[i := r'], shared', f')" "work i r' < work i (rs ! i)" by simp_all
  have "total_work (rs[i := r'], shared', f') < total_work (rs, shared, f)"
    unfolding total_work_def
    by (rule sum_strict_mono_ex1) (use k(2) i in \<open>auto simp: nth_list_update intro!: bexI [of _ i]\<close>)
  with k(1) step(1,2) show ?thesis by simp
qed

lemma progress:
  assumes "receive_inv (rs, shared, f)" and "\<not> all_finished rs"
  shows "\<exists>w'. receive_step ops fs options (rs, shared, f) w'"
proof -
  have l: "length rs = parallel" and s: "shared_inv rs shared f" using assms(1) by (simp_all add: receive_inv_def)
  have "\<exists>i < parallel. r_phase (rs ! i) \<noteq> Finished \<and> (sh_mutex shared = None \<or> sh_mutex shared = Some i)"
  proof (cases "sh_mutex shared")
    case None
    with assms(2) l show ?thesis by (auto simp: all_finished_def in_set_conv_nth)
  next
    case (Some j)
    with s show ?thesis by (intro exI [of _ j]) (auto simp: shared_inv_def)
  qed
  then obtain i where i: "i < parallel" "r_phase (rs ! i) \<noteq> Finished" "sh_mutex shared = None \<or> sh_mutex shared = Some i" by blast
  from step_ok [OF assms(1) i(1,2)] i(3) obtain r' shared' f' where
    "receive_file_part ops fs options i (rs ! i) shared f = Some (r', shared', f')" by blast
  then have "receive_step ops fs options (rs, shared, f) (rs[i := r'], shared', f')" using i(1) l by (intro receive_step.step) simp_all
  then show ?thesis ..
qed

lemma inv_start:
  assumes "usable f out"
  shows "receive_inv (start_receivers connection options f)"
  using assms by (simp add: receive_inv_def start_receivers_def streams_def thread_inv_def new_receiver_def
      shared_inv_def initial_shared_def ready_def)

lemma inv_reachable: "(receive_step ops fs options)\<^sup>*\<^sup>* w w' \<Longrightarrow> receive_inv w \<Longrightarrow> receive_inv w'"
  by (induction rule: rtranclp_induct) (auto dest: step_inv)

lemma no_infinite_run: "receive_inv (run 0) \<Longrightarrow> \<exists>k. \<not> receive_step ops fs options (run k) (run (Suc k))"
proof (rule ccontr)
  assume "receive_inv (run 0)" and "\<not> (\<exists>k. \<not> receive_step ops fs options (run k) (run (Suc k)))"
  then have steps: "receive_step ops fs options (run k) (run (Suc k))" for k by blast
  have inv: "receive_inv (run k)" for k
    by (induction k) (simp_all add: \<open>receive_inv (run 0)\<close> step_inv [OF _ steps])
  have "total_work (run k) + k \<le> total_work (run 0)" for k
  proof (induction k)
    case (Suc k)
    have "total_work (run (Suc k)) < total_work (run k)" using step_inv [OF inv steps] by blast
    with Suc show ?case by simp
  qed simp
  from this [of "Suc (total_work (run 0))"] show False by simp
qed

lemma completes:
  assumes "receive_inv w"
  shows "\<exists>rs shared f. (receive_step ops fs options)\<^sup>*\<^sup>* w (rs, shared, f) \<and> all_finished rs"
  using assms
proof (induction "total_work w" arbitrary: w rule: less_induct)
  case less
  obtain rs shared f where w: "w = (rs, shared, f)" by (rule prod_cases3)
  show ?case
  proof (cases "all_finished rs")
    case True
    with w show ?thesis by blast
  next
    case False
    from progress [OF _ this] less.prems w obtain w' where s: "receive_step ops fs options w w'" by blast
    from step_inv [OF less.prems s] less.hyps [of w'] have
      "\<exists>rs shared f. (receive_step ops fs options)\<^sup>*\<^sup>* w' (rs, shared, f) \<and> all_finished rs" by blast
    with s show ?thesis by (meson converse_rtranclp_into_rtranclp)
  qed
qed

lemma covered: "k < start m \<Longrightarrow> m \<le> parallel \<Longrightarrow> \<exists>i < parallel. start i \<le> k \<and> k < start i + amount i"
proof (induction m)
  case (Suc m)
  show ?case
  proof (cases "k < start m")
    case True
    with Suc show ?thesis by simp
  next
    case False
    with Suc.prems start_Suc(2) [of m] show ?thesis by (intro exI [of _ m]) simp
  qed
qed simp

lemma sum_amounts: "sum_list (map (\<lambda>i. of_nat (amount i)) [0..<m]) = (of_nat (start m) :: u64)"
  by (induction m) (simp_all add: start_Suc(2) [symmetric])

lemma finished_outcome:
  assumes "receive_inv (rs, shared, f)" and "all_finished rs"
  shows "join_receivers rs = Inr (of_nat (length data))" "files f out = Some data"
proof -
  have p: "0 < parallel" using many by (simp add: word_less_nat_alt)
  have l: "length rs = parallel" using assms(1) by (simp add: receive_inv_def)
  have fin: "r_result (rs ! i) = \<lparr>sr_bytes = of_nat (amount i), sr_error = None\<rparr> \<and> ready shared" if "i < parallel" for i
  proof -
    have "r_phase (rs ! i) = Finished" "thread_inv shared i (rs ! i)"
      using assms that l by (simp_all add: all_finished_def receive_inv_def)
    then show ?thesis by (simp add: thread_inv_def)
  qed
  then have "map r_result rs = map (\<lambda>i. \<lparr>sr_bytes = of_nat (amount i), sr_error = None\<rparr>) [0..<parallel]"
    using l by (intro nth_equalityI) simp_all
  then show "join_receivers rs = Inr (of_nat (length data))"
    using sum_amounts [of parallel] p
    by (simp add: join_receivers_def join_results_def rethrow_first_error_None total_bytes_sum o_def range_start_all)
  from fin [OF p] assms(1) have "file_inv rs f" by (simp add: receive_inv_def)
  then obtain content where c: "files f out = Some content" "length content = length data"
    "\<And>i k. i < parallel \<Longrightarrow> start i \<le> k \<Longrightarrow> k < start i + unat (sr_bytes (r_result (rs ! i))) \<Longrightarrow> k < length data \<Longrightarrow>
       content ! k = data ! k" by (auto simp: file_inv_def)
  have "content ! k = data ! k" if "k < length data" for k
  proof -
    from covered [of k parallel] that p obtain i where i: "i < parallel" "start i \<le> k" "k < start i + amount i"
      by (auto simp: range_start_all)
    with c(3) [OF i(1,2)] fin [OF i(1)] amounts(2) [OF i(1)] that show ?thesis by simp
  qed
  with c(1,2) show "files f out = Some data" by (metis nth_equalityI)
qed

end

lemma finished_no_step:
  assumes "all_finished rs"
  shows "\<not> receive_step ops fs options (rs, shared, f) w"
  using assms by (auto simp: receive_step_iff all_finished_def receive_file_part_def)

text \<open>
  C2. A file over parallel streams. Let the connection of every stream deliver what the parallel sender
  sends on it for a file of less than $2^{63}$ bytes, and let the output file be one that can
  be created, resized and written. Then, in whatever order the receiver's threads take their steps:
  the receiver does not run for ever; as long as some thread has not finished, some thread can step,
  so the threads never block one another; and once no step is left every thread
  has finished without an error, \<^verbatim>\<open>run_receive\<close> reports the size of the file, and the output
  file holds exactly its bytes.
\<close>

theorem parallel_receive_saves_file:
  assumes "file_reception ops invar sent pending good fs files usable"
    and "1 < o_parallel options" and "safe_file_name name = Inr name" and "length name \<le> 4096" and "length data < 2 ^ 63"
    and "\<And>i. i < unat (o_parallel options) \<Longrightarrow>
      connect_session ops ''hyperlink-file'' (new_session (connection (endpoint_for_stream options (of_nat i)))) =
        (Inr (), session_at i) \<and>
      (\<exists>t. s_connected (session_at i) \<and> s_transport (session_at i) = Some t \<and> good t \<and>
         pending t = file_message name data (o_parallel options) (of_nat i))"
    and "usable f (join_path (o_output_dir options) name)"
  shows "(\<nexists>run. run 0 = start_receivers connection options f \<and> (\<forall>k. receive_step ops fs options (run k) (run (Suc k)))) \<and>
    (\<forall>rs shared f'. (receive_step ops fs options)\<^sup>*\<^sup>* (start_receivers connection options f) (rs, shared, f') \<longrightarrow>
       (\<exists>w. receive_step ops fs options (rs, shared, f') w) \<or>
       all_finished rs \<and> join_receivers rs = Inr (of_nat (length data)) \<and>
       files f' (join_path (o_output_dir options) name) = Some data)"
proof -
  have P: "parallel_reception ops invar sent pending good fs files usable options connection session_at name data"
    by (rule parallel_reception.intro [OF assms(1)], unfold_locales) (use assms(2-6) in \<open>auto simp: up_def\<close>)
  note inv = parallel_reception.inv_start [OF P assms(7)]
  have "\<nexists>run. run 0 = start_receivers connection options f \<and> (\<forall>k. receive_step ops fs options (run k) (run (Suc k)))"
    using parallel_reception.no_infinite_run [OF P] inv by metis
  moreover have "(\<exists>w. receive_step ops fs options (rs, shared, f') w) \<or>
       all_finished rs \<and> join_receivers rs = Inr (of_nat (length data)) \<and>
       files f' (join_path (o_output_dir options) name) = Some data"
    if "(receive_step ops fs options)\<^sup>*\<^sup>* (start_receivers connection options f) (rs, shared, f')" for rs shared f'
  proof -
    note i = parallel_reception.inv_reachable [OF P that inv]
    show ?thesis using parallel_reception.progress [OF P i] parallel_reception.finished_outcome [OF P i] by blast
  qed
  ultimately show ?thesis by blast
qed

section \<open>The in-memory instance\<close>

definition seven_bytes_server :: "TcpEndpoint \<Rightarrow> mem_world tcp" where
  "seven_bytes_server endpoint = mem_server (file_message ''b.bin'' seven_bytes 2 (ucast (te_port endpoint - 47790))) endpoint"

definition two_receivers :: Options where
  "two_receivers = default_transfer_options\<lparr>o_receive := True, o_advertise := False, o_output_dir := ''in'', o_parallel := 2\<rparr>"

definition seven_bytes_session :: "nat \<Rightarrow> mem_world tcp session" where
  "seven_bytes_session i = \<lparr>s_transport = Some (accepted_client (file_message ''b.bin'' seven_bytes 2 (of_nat i))
     (endpoint_for_stream two_receivers (of_nat i))), s_connected = True\<rparr>"

lemma seven_bytes_arrive:
  assumes "i < unat (o_parallel two_receivers)"
  shows "connect_session (tcp_ops mem_api) ''hyperlink-file''
      (new_session (seven_bytes_server (endpoint_for_stream two_receivers (of_nat i)))) = (Inr (), seven_bytes_session i)"
proof -
  have "i < 2" using assms by (simp add: two_receivers_def)
  then consider "i = 0" | "i = 1" by linarith
  then have "ucast (te_port (endpoint_for_stream two_receivers (of_nat i)) - 47790) = (of_nat i :: u32)"
    by cases (simp_all add: endpoint_for_stream_def two_receivers_def default_transfer_options_def kDefaultPort_def)
  then show ?thesis by (simp add: seven_bytes_server_def mem_server_connects seven_bytes_session_def)
qed

interpretation mem_parallel: parallel_reception "tcp_ops mem_api" "tcp_inv mw_open" mem.tcp_sent mem.tcp_pending
  mem.tcp_good mem_fs "\<lambda>f. f" "\<lambda>_ _. True" two_receivers seven_bytes_server seven_bytes_session "''b.bin''" seven_bytes
proof (rule parallel_reception.intro [OF mem_reception.file_reception_axioms], unfold_locales)
  show "1 < o_parallel two_receivers" "safe_file_name ''b.bin'' = Inr ''b.bin''" "length ''b.bin'' \<le> 4096" "length seven_bytes < 2 ^ 63"
    by (simp_all add: two_receivers_def safe_file_name_def filename_def seven_bytes_def)
next
  fix i
  assume "i < unat (o_parallel two_receivers)"
  from seven_bytes_arrive [OF this] show "connect_session (tcp_ops mem_api) ''hyperlink-file''
      (new_session (seven_bytes_server (endpoint_for_stream two_receivers (word_of_nat i)))) = (Inr (), seven_bytes_session i)" .
  show "\<exists>t. up (seven_bytes_session i) t \<and> mem.tcp_good t \<and>
      mem.tcp_pending t = file_message ''b.bin'' seven_bytes (o_parallel two_receivers) (word_of_nat i)"
    by (simp add: up_def seven_bytes_session_def accepted_client_good two_receivers_def)
qed

theorem parallel_receive_saves_file_witness:
  "\<exists>rs shared f'. (receive_step (tcp_ops mem_api) mem_fs two_receivers)\<^sup>*\<^sup>*
       (start_receivers seven_bytes_server two_receivers Map.empty) (rs, shared, f') \<and>
     all_finished rs \<and> join_receivers rs = Inr 7 \<and> f' ''in/b.bin'' = Some [1, 2, 3, 4, 5, 6, 7]"
proof -
  have o: "o_parallel two_receivers = 2" "join_path (o_output_dir two_receivers) ''b.bin'' = ''in/b.bin''"
    by (simp_all add: two_receivers_def join_path_def is_absolute_def starts_with_def)
  have n: "1 < o_parallel two_receivers" "safe_file_name ''b.bin'' = Inr ''b.bin''" "length ''b.bin'' \<le> 4096" "length seven_bytes < 2 ^ 63"
    by (simp_all add: o safe_file_name_def filename_def seven_bytes_def)
  have "connect_session (tcp_ops mem_api) ''hyperlink-file''
        (new_session (seven_bytes_server (endpoint_for_stream two_receivers (of_nat i)))) = (Inr (), seven_bytes_session i) \<and>
      (\<exists>t. s_connected (seven_bytes_session i) \<and> s_transport (seven_bytes_session i) = Some t \<and> mem.tcp_good t \<and>
         mem.tcp_pending t = file_message ''b.bin'' seven_bytes (o_parallel two_receivers) (of_nat i))"
    if "i < unat (o_parallel two_receivers)" for i
    using seven_bytes_arrive [OF that] by (simp add: seven_bytes_session_def accepted_client_good o)
  note all = parallel_receive_saves_file [where f = "Map.empty", OF mem_reception.file_reception_axioms n this TrueI, THEN conjunct2]
  obtain rs shared f' where r: "(receive_step (tcp_ops mem_api) mem_fs two_receivers)\<^sup>*\<^sup>*
      (start_receivers seven_bytes_server two_receivers Map.empty) (rs, shared, f')" "all_finished rs"
    using mem_parallel.completes [OF mem_parallel.inv_start [OF TrueI]] by blast
  from all [rule_format, OF _ r(1)] finished_no_step [OF r(2), of "tcp_ops mem_api" mem_fs two_receivers shared f'] have "join_receivers rs = Inr (of_nat (length seven_bytes))"
    "f' (join_path (o_output_dir two_receivers) ''b.bin'') = Some seven_bytes" by simp_all
  then have "join_receivers rs = Inr 7" "f' ''in/b.bin'' = Some [1, 2, 3, 4, 5, 6, 7]"
    unfolding o(2) by (simp_all add: seven_bytes_def)
  with r show ?thesis by blast
qed

end
