(* ===== verification/Receive_Safety.thy ===== *)
theory Receive_Safety
  imports File_Receiver
begin

text \<open>
  Whatever a peer sends, the receiver works inside its output directory: every call that
  changes the file system is made on a path that denotes the output directory or something
  below it. Stated without a file system: any relation between file-system states that all
  calls on such paths respect holds between the states before and after.
\<close>

section \<open>Paths below a directory\<close>

lemma walk_append: "walk dir (ps @ qs) = walk (walk dir ps) qs"
  by (induction ps arbitrary: dir) auto

lemma split_slash_append: "split_slash (a @ CHR ''/'' # b) = split_slash a @ split_slash b"
  by (induction a) (auto split: list.splits)

lemma split_slash_extend:
  "CHR ''/'' \<notin> set suffix \<Longrightarrow> split_slash (a @ suffix) = butlast (split_slash a) @ [last (split_slash a) @ suffix]"
  by (induction a) (auto simp: split_slash_no_slash split: list.splits)

lemma is_absolute_append: "a \<noteq> [] \<Longrightarrow> is_absolute (a @ b) = is_absolute a"
  by (cases a) (simp_all add: is_absolute_def starts_with_def)

lemma walk_trailing_slashes: "walk dir (split_slash (a @ replicate n (CHR ''/''))) = walk dir (split_slash a)"
proof (induction n)
  case (Suc n)
  have "a @ replicate (Suc n) (CHR ''/'') = (a @ replicate n (CHR ''/'')) @ CHR ''/'' # []"
    by (simp add: replicate_append_same)
  then have "walk dir (split_slash (a @ replicate (Suc n) (CHR ''/''))) = walk dir (split_slash (a @ replicate n (CHR ''/'')) @ [[]])"
    by (simp only: split_slash_append split_slash.simps(1))
  with Suc show ?case by (simp only: walk_append) simp
qed simp

lemma split_join:
  assumes "\<not> is_absolute rel" "rel \<noteq> []"
  shows "\<exists>pre. split_slash (join_path dir rel) = pre @ split_slash rel \<and>
    (\<forall>cwd. walk (if is_absolute (join_path dir rel) then [] else cwd) pre = denotes cwd dir)"
proof (cases "dir = [] \<or> last dir = CHR ''/''")
  case False
  then show ?thesis using assms is_absolute_append [of dir "''/'' @ rel"]
    by (intro exI [of _ "split_slash dir"]) (simp add: join_path_def denotes_def split_slash_append)
next
  case True
  show ?thesis
  proof (cases "dir = []")
    case True
    with assms show ?thesis
      by (intro exI [of _ "[]"]) (simp add: join_path_def denotes_def, simp add: is_absolute_def starts_with_def)
  next
    case False
    with True obtain d where d: "dir = d @ ''/''" by (metis append_butlast_last_id)
    then have "dir @ rel = d @ CHR ''/'' # rel" by simp
    then have "split_slash (dir @ rel) = split_slash d @ split_slash rel" by (simp only: split_slash_append)
    moreover have "split_slash dir = split_slash d @ [[]]" using split_slash_append [of d "[]"] d by simp
    ultimately show ?thesis using assms True False is_absolute_append [OF False, of rel]
      by (intro exI [of _ "split_slash d"]) (simp add: join_path_def denotes_def walk_append)
  qed
qed

text \<open>The directory itself or something below it, from whatever working directory it is read.\<close>

definition inside :: "string \<Rightarrow> string \<Rightarrow> bool" where
  "inside dir path \<longleftrightarrow> (\<forall>cwd. \<exists>names. denotes cwd path = denotes cwd dir @ names)"

text \<open>A path of the output directory and a proper file name, with whatever is before it below the directory.\<close>

definition proper :: "string \<Rightarrow> bool" where
  "proper p \<longleftrightarrow> p \<noteq> [] \<and> p \<noteq> ''.'' \<and> p \<noteq> ''..''"

definition entry_below :: "string \<Rightarrow> string \<Rightarrow> bool" where
  "entry_below dir path \<longleftrightarrow> proper (last (split_slash path)) \<and>
     (\<forall>cwd. \<exists>names. walk (if is_absolute path then [] else cwd) (butlast (split_slash path)) = denotes cwd dir @ names)"

lemma entry_inside: "entry_below dir path \<Longrightarrow> inside dir path"
proof -
  assume e: "entry_below dir path"
  have "\<exists>names. denotes cwd path = denotes cwd dir @ names" for cwd
  proof -
    let ?from = "if is_absolute path then [] else cwd"
    from e obtain names where n: "walk ?from (butlast (split_slash path)) = denotes cwd dir @ names"
      and p: "proper (last (split_slash path))" by (auto simp: entry_below_def)
    have "denotes cwd path = walk ?from (butlast (split_slash path) @ [last (split_slash path)])" by (simp add: denotes_def)
    also have "\<dots> = denotes cwd dir @ names @ [last (split_slash path)]" unfolding walk_append n using p by (simp add: proper_def)
    finally show ?thesis by blast
  qed
  then show ?thesis by (simp add: inside_def)
qed

lemma entry_suffix:
  assumes "entry_below dir path" and "CHR ''/'' \<notin> set suffix" and "2 < length suffix"
  shows "entry_below dir (path @ suffix)"
proof -
  have "path \<noteq> []" using assms(1) by (auto simp: entry_below_def proper_def)
  have "proper (last (split_slash path) @ suffix)" using assms(3) by (auto simp: proper_def append_eq_Cons_conv)
  with assms(1) split_slash_extend [OF assms(2), of path] is_absolute_append [OF \<open>path \<noteq> []\<close>] show ?thesis
    by (simp add: entry_below_def)
qed

lemma split_at_filename:
  assumes "path = front @ CHR ''/'' # name" and "CHR ''/'' \<notin> set name"
  shows "filename path = name" "butlast (split_slash path) = split_slash front" "last (split_slash path) = name"
  using assms by (simp_all add: filename_def split_slash_append split_slash_no_slash takeWhile_append takeWhile_eq_all_conv)

lemma strip_slashes: "\<exists>n. d = rev (dropWhile (\<lambda>c. c = CHR ''/'') (rev d)) @ replicate n (CHR ''/'')"
proof -
  have "rev d = takeWhile (\<lambda>c. c = CHR ''/'') (rev d) @ dropWhile (\<lambda>c. c = CHR ''/'') (rev d)" by simp
  moreover have "takeWhile (\<lambda>c. c = CHR ''/'') (rev d) = replicate (length (takeWhile (\<lambda>c. c = CHR ''/'') (rev d))) (CHR ''/'')"
    by (rule replicate_length_same [symmetric]) (auto dest: set_takeWhileD)
  ultimately have "rev (rev d) = rev (dropWhile (\<lambda>c. c = CHR ''/'') (rev d)) @ replicate (length (takeWhile (\<lambda>c. c = CHR ''/'') (rev d))) (CHR ''/'')"
    by (metis rev_append rev_replicate)
  then show ?thesis by auto
qed

lemma parent_inside:
  assumes "entry_below dir path"
  shows "inside dir (parent_path path)"
proof (cases "CHR ''/'' \<in> set path")
  case False
  then have p: "filename path = path" "split_slash path = [path]" "\<not> is_absolute path"
    by (simp_all add: filename_id split_slash_no_slash no_slash_not_absolute)
  have "parent_path path = []" using False p(1) by (cases path) (auto simp: parent_path_def)
  with assms p show ?thesis by (simp add: inside_def entry_below_def denotes_def) (simp add: is_absolute_def starts_with_def)
next
  case True
  then obtain front name where s: "path = front @ CHR ''/'' # name" "CHR ''/'' \<notin> set name" by (metis split_list_last)
  note f = split_at_filename [OF s]
  let ?d = "front @ ''/''" and ?strip = "\<lambda>d. rev (dropWhile (\<lambda>c. c = CHR ''/'') (rev d))"
  from assms f(3) have "name \<noteq> []" by (simp add: entry_below_def proper_def)
  then have mixed: "\<not> (\<forall>c \<in> set path. c = CHR ''/'')" using s by (cases name) auto
  have take: "take (length path - length (filename path)) path = ?d" using s(1) f(1) by simp
  have parent: "parent_path path = (if ?strip ?d = [] then ''/'' else ?strip ?d)"
    unfolding parent_path_def Let_def take if_not_P [OF mixed] by simp
  obtain n where n: "?d = ?strip ?d @ replicate n (CHR ''/'')" using strip_slashes by blast
  have walk_d: "walk top (split_slash ?d) = walk top (split_slash front)" for top
    using split_slash_append [of front "[]"] by (simp add: walk_append)
  have abs: "is_absolute ?d = is_absolute path" using s(1) is_absolute_append [of ?d name] by simp
  have "denotes cwd (parent_path path) = walk (if is_absolute path then [] else cwd) (butlast (split_slash path))" for cwd
  proof (cases "?strip ?d = []")
    case True
    then have "?d = replicate n (CHR ''/'')" using n by simp
    moreover from this have "n \<noteq> 0" by (cases n) auto
    ultimately have "is_absolute path" using abs by (cases n) (auto simp: is_absolute_def starts_with_def)
    moreover have "walk [] (split_slash ?d) = []"
      using walk_trailing_slashes [of "[]" "[]" n] \<open>?d = replicate n (CHR ''/'')\<close> by simp
    ultimately show ?thesis using True f(2) walk_d [of "[]"] by (simp add: parent denotes_def is_absolute_def starts_with_def)
  next
    case False
    have "is_absolute (?strip ?d) = is_absolute path" using abs n is_absolute_append [OF False] by metis
    moreover have "walk top (split_slash (?strip ?d)) = walk top (split_slash front)" for top
      using walk_trailing_slashes [of top "?strip ?d" n] n walk_d by metis
    ultimately show ?thesis unfolding parent if_not_P [OF False] f(2) denotes_def by (simp only:)
  qed
  with assms show ?thesis by (simp add: inside_def entry_below_def)
qed

lemma entry_join:
  assumes "\<not> is_absolute rel" and "rel \<noteq> []" and "\<forall>p \<in> set (split_slash rel). p \<noteq> ''.'' \<and> p \<noteq> ''..''"
    and "last (split_slash rel) \<noteq> []"
  shows "entry_below dir (join_path dir rel)"
proof -
  from split_join [OF assms(1,2), of dir] obtain pre where
    p: "split_slash (join_path dir rel) = pre @ split_slash rel"
      "\<And>cwd. walk (if is_absolute (join_path dir rel) then [] else cwd) pre = denotes cwd dir" by blast
  have "proper (last (split_slash rel))" using assms(3,4) by (simp add: proper_def)
  moreover have "walk d (butlast (split_slash rel)) = d @ filter (\<lambda>p. p \<noteq> []) (butlast (split_slash rel))" for d
    using assms(3) by (intro walk_plain) (meson in_set_butlastD)
  ultimately show ?thesis by (simp add: entry_below_def p butlast_append walk_append)
qed

lemma entry_relative:
  assumes "safe_relative_path name = Inr rel"
  shows "entry_below dir (join_path dir rel)"
proof -
  have r: "rel = name" "name \<noteq> []" "\<not> is_absolute name"
    "\<not> (\<exists>p \<in> set (path_elements name). p = ''.'' \<or> p = ''..'' \<or> p = [])"
    using assms by (simp_all add: safe_relative_path_def split: if_split_asm)
  have e: "\<exists>p \<in> set (split_slash name). p \<noteq> []" by (rule split_slash_nonempty [OF r(2,3)])
  have m: "p \<in> set (path_elements name)" if "p \<in> set (split_slash name)" "p \<noteq> []" for p
    using that by (simp add: path_elements_def Let_def)
  have "p \<noteq> ''.'' \<and> p \<noteq> ''..''" if "p \<in> set (split_slash name)" for p
    using r(4) m [OF that] by blast
  moreover have "[] \<in> set (path_elements name)" if "last (split_slash name) = []"
    using that e by (simp add: path_elements_def Let_def filter_empty_conv)
  with r(4) have "last (split_slash name) \<noteq> []" by blast
  ultimately show ?thesis using r by (intro entry_join) auto
qed

lemma entry_file:
  assumes "safe_file_name name = Inr file"
  shows "entry_below dir (join_path dir file)"
proof -
  have f: "file = filename name" "file \<noteq> []" "file \<noteq> ''.''" "file \<noteq> ''..''"
    using assms by (simp_all add: safe_file_name_def Let_def split: if_split_asm)
  have "CHR ''/'' \<notin> set file" using f(1) filename_no_slash by simp
  with f show ?thesis by (intro entry_join) (simp_all add: no_slash_not_absolute split_slash_no_slash)
qed

section \<open>What the receiver can change\<close>

text \<open>A relation between file-system states that every change on an allowed path respects.\<close>

locale file_frame =
  fixes fs :: "'f file_api" and keep :: "'f \<Rightarrow> 'f \<Rightarrow> bool" and allowed :: "string \<Rightarrow> bool"
  assumes keep_refl [simp, intro]: "keep f f"
    and keep_trans: "keep f g \<Longrightarrow> keep g h \<Longrightarrow> keep f h"
    and keep_truncate: "allowed path \<Longrightarrow> keep f (snd (fs_truncate fs path f))"
    and keep_resize: "allowed path \<Longrightarrow> keep f (snd (fs_resize fs path n f))"
    and keep_write: "allowed path \<Longrightarrow> keep f (snd (fs_write fs path position bytes f))"
    and keep_create_directories: "allowed path \<Longrightarrow> keep f (snd (fs_create_directories fs path f))"
    and keep_remove: "allowed path \<Longrightarrow> keep f (fs_remove fs path f)"
    and keep_create_symlink: "allowed path \<Longrightarrow> keep f (snd (fs_create_symlink fs target path f))"
    and keep_permissions: "allowed path \<Longrightarrow> keep f (fs_permissions fs path mode f)"

fun phase_inside :: "string \<Rightarrow> ReceiveSharedState \<Rightarrow> receive_phase \<Rightarrow> bool" where
  "phase_inside dir shared (Make_directory path) = entry_below dir path"
| "phase_inside dir shared (Link_parent path n) = entry_below dir path"
| "phase_inside dir shared (Link_target path n) = entry_below dir path"
| "phase_inside dir shared (Make_link target path n) = entry_below dir path"
| "phase_inside dir shared (File_parent path incoming) = entry_below dir path"
| "phase_inside dir shared (File_open path incoming) = entry_below dir path"
| "phase_inside dir shared (File_payload path incoming n) = entry_below dir path"
| "phase_inside dir shared (Lock_shared incoming) = entry_below dir (join_path dir (ih_file_name incoming))"
| "phase_inside dir shared (Create_output incoming) = sh_initialized shared"
| "phase_inside dir shared (Resize_output incoming) = sh_initialized shared"
| "phase_inside dir shared (Open_output path incoming) = entry_below dir path"
| "phase_inside dir shared (Part_payload path incoming n) = entry_below dir path"
| "phase_inside dir shared _ = True"

definition shared_inside :: "string \<Rightarrow> ReceiveSharedState \<Rightarrow> bool" where
  "shared_inside dir shared \<longleftrightarrow> (sh_initialized shared \<longrightarrow> entry_below dir (sh_output_path shared))"

lemma phase_inside_mono:
  "phase_inside dir shared phase \<Longrightarrow> (sh_initialized shared \<longrightarrow> sh_initialized shared') \<Longrightarrow> phase_inside dir shared' phase"
  by (cases phase) auto

lemma phase_add_bytes [simp]: "r_phase (add_bytes n r) = r_phase r" "r_phase (finish ops e r) = Finished"
  by (simp_all add: add_bytes_def finish_def)

lemma dispatch_inside:
  assumes "dispatch options incoming = Inr phase"
  shows "phase_inside (o_output_dir options) shared phase"
proof -
  have below: "\<exists>path. entry_below (o_output_dir options) path \<and> phase = make path"
    if "map_sum id (\<lambda>path. make (join_path (o_output_dir options) path)) (safe_relative_path (ih_file_name incoming)) = Inr phase" for make
    using that entry_relative [of "ih_file_name incoming"] by (cases "safe_relative_path (ih_file_name incoming)") auto
  from assms show ?thesis
    by (cases "ih_kind incoming")
      (auto simp: dispatch_def Let_def dest!: below intro: entry_file split: sum.splits if_splits)
qed

locale confined_receiver = file_frame fs keep "inside dir" for fs :: "'f file_api" and keep dir
begin

lemmas keep_steps = keep_truncate keep_resize keep_write keep_create_directories keep_remove keep_create_symlink keep_permissions

lemma keep_snd:
  "fs_truncate fs path f = (b, f') \<Longrightarrow> inside dir path \<Longrightarrow> keep f f'"
  "fs_resize fs path n f = (e, f') \<Longrightarrow> inside dir path \<Longrightarrow> keep f f'"
  "fs_write fs path position bytes f = (b, f') \<Longrightarrow> inside dir path \<Longrightarrow> keep f f'"
  "fs_create_directories fs path f = (d, f') \<Longrightarrow> inside dir path \<Longrightarrow> keep f f'"
  "fs_create_symlink fs target path f = (b, f') \<Longrightarrow> inside dir path \<Longrightarrow> keep f f'"
  using keep_truncate [of path f] keep_resize [of path f n] keep_write [of path f position bytes]
    keep_create_directories [of path f] keep_create_symlink [of path f target] by simp_all

lemma symlink_keeps:
  assumes "create_symlink_or_fallback fs target path f = (r, f')" and "entry_below dir path"
  shows "keep f f'"
proof -
  have i: "inside dir path" "inside dir (path @ ''.hyperlink-symlink.txt'')"
    using assms(2) entry_suffix [OF assms(2), of "''.hyperlink-symlink.txt''"] by (auto intro: entry_inside)
  obtain b f1 where c: "fs_create_symlink fs target path (fs_remove fs path f) = (b, f1)" by fastforce
  have k: "keep f f1" using keep_trans [OF keep_remove [OF i(1)] keep_snd(5) [OF c i(1)]] .
  obtain b2 f2 where d: "fs_truncate fs (path @ ''.hyperlink-symlink.txt'') f1 = (b2, f2)" by fastforce
  have k2: "keep f f2" using keep_trans [OF k keep_snd(1) [OF d i(2)]] .
  have "keep f (snd (fs_write fs (path @ ''.hyperlink-symlink.txt'') 0 bs f2))" for bs
    using keep_trans [OF k2 keep_write [OF i(2)]] .
  with assms(1) k k2 c d show ?thesis by (auto simp: create_symlink_or_fallback_def Let_def split: bool.splits)
qed

lemma chunk_keeps:
  assumes "chunk_step ops fs hangup path position n phase r f = (r', f')" and "entry_below dir path"
  shows "keep f f'" "r_phase r' = Finished \<or> (\<exists>k. r_phase r' = phase k)"
  using assms entry_inside [OF assms(2)]
  by (auto simp: chunk_step_def dest: keep_snd(3) split: prod.splits sum.splits if_splits bool.splits)

lemma receive_file_part_inside:
  assumes "receive_file_part ops fs options i r shared f = Some (r', shared', f')" and "o_output_dir options = dir"
    and "phase_inside dir shared (r_phase r)" and "shared_inside dir shared"
  shows "phase_inside dir shared' (r_phase r') \<and> shared_inside dir shared' \<and> keep f f' \<and>
    (sh_initialized shared \<longrightarrow> sh_initialized shared')"
proof (cases "r_phase r")
  case Connecting
  with assms show ?thesis
    by (auto simp: receive_file_part_def connect_step_def split: prod.splits sum.splits)
next
  case Read_header
  with assms show ?thesis
    by (auto simp: receive_file_part_def header_step_def dispatch_inside split: prod.splits sum.splits option.splits)
next
  case (Make_directory path)
  with assms entry_inside [of dir path] show ?thesis
    by (auto simp: receive_file_part_def directories_step_def dest: keep_snd split: prod.splits option.splits)
next
  case (Link_parent path n)
  with assms parent_inside [of dir path] show ?thesis
    by (auto simp: receive_file_part_def directories_step_def dest: keep_snd split: prod.splits option.splits)
next
  case (Link_target path n)
  with assms show ?thesis
    by (auto simp: receive_file_part_def link_target_step_def split: prod.splits sum.splits)
next
  case (Make_link target path n)
  with assms show ?thesis
    by (auto simp: receive_file_part_def make_link_step_def dest: symlink_keeps split: prod.splits sum.splits)
next
  case (File_parent path incoming)
  with assms parent_inside [of dir path] show ?thesis
    by (auto simp: receive_file_part_def file_parent_step_def dest: keep_snd split: prod.splits option.splits)
next
  case (File_open path incoming)
  with assms entry_inside [of dir path] show ?thesis
    by (auto simp: receive_file_part_def file_open_step_def dest: keep_snd split: prod.splits bool.splits)
next
  case (File_payload path incoming n)
  with assms entry_inside [of dir path] show ?thesis
    by (auto simp: receive_file_part_def file_payload_step_def apply_permissions_def intro: keep_permissions
        dest: chunk_keeps split: prod.splits if_splits)
next
  case (Lock_shared incoming)
  with assms show ?thesis
    by (auto simp: receive_file_part_def lock_step_def shared_inside_def split: if_splits)
next
  case (Create_output incoming)
  with assms entry_inside [of dir "sh_output_path shared"] show ?thesis
    by (auto simp: receive_file_part_def create_output_step_def shared_inside_def unlock_def dest: keep_snd
        split: prod.splits bool.splits)
next
  case (Resize_output incoming)
  with assms entry_inside [of dir "sh_output_path shared"] show ?thesis
    by (auto simp: receive_file_part_def resize_output_step_def shared_inside_def unlock_def dest: keep_snd
        split: prod.splits option.splits)
next
  case (Open_output path incoming)
  with assms show ?thesis
    by (auto simp: receive_file_part_def open_output_step_def split: if_splits)
next
  case (Part_payload path incoming n)
  with assms show ?thesis
    by (auto simp: receive_file_part_def part_payload_step_def dest: chunk_keeps split: prod.splits if_splits)
next
  case Finished
  with assms show ?thesis by (simp add: receive_file_part_def)
qed

lemma step_inside:
  assumes "receive_step ops fs options (rs, shared, f) (rs', shared', f')" and "o_output_dir options = dir"
    and "\<forall>r \<in> set rs. phase_inside dir shared (r_phase r)" and "shared_inside dir shared"
  shows "(\<forall>r \<in> set rs'. phase_inside dir shared' (r_phase r)) \<and> shared_inside dir shared' \<and> keep f f'"
proof -
  from assms(1) obtain i r' where i: "i < length rs" "rs' = rs[i := r']"
    "receive_file_part ops fs options i (rs ! i) shared f = Some (r', shared', f')" by (auto simp: receive_step_iff)
  from receive_file_part_inside [OF i(3) assms(2) _ assms(4)] assms(3) i(1)
  have k: "phase_inside dir shared' (r_phase r')" "shared_inside dir shared'" "keep f f'"
    "sh_initialized shared \<longrightarrow> sh_initialized shared'" by simp_all
  with assms(3) i(2) show ?thesis using phase_inside_mono [OF _ k(4)] set_update_subset_insert [of rs i r'] by blast
qed

lemma reachable_inside:
  assumes "(receive_step ops fs options)\<^sup>*\<^sup>* w w'" and "o_output_dir options = dir"
    and "\<forall>r \<in> set (fst w). phase_inside dir (fst (snd w)) (r_phase r)" and "shared_inside dir (fst (snd w))"
  shows "(\<forall>r \<in> set (fst w'). phase_inside dir (fst (snd w')) (r_phase r)) \<and> shared_inside dir (fst (snd w')) \<and>
    keep (snd (snd w)) (snd (snd w'))"
  using assms
proof (induction rule: rtranclp_induct)
  case (step y z)
  with step_inside [of ops options "fst y" "fst (snd y)" "snd (snd y)" "fst z" "fst (snd z)" "snd (snd z)"] show ?case
    by (auto intro: keep_trans)
qed simp

lemma payload_loop_keeps:
  assumes "payload_loop ops fs path n m s f = (r, s', f')" and "inside dir path"
  shows "keep f f'"
  using assms(1)
proof (induction m arbitrary: n s f rule: less_induct)
  case (less m)
  obtain e s1 where c: "session_receive_into ops (min m kChunkBytes) s = (e, s1)" by fastforce
  show ?case
  proof (cases "m = 0 \<or> (\<exists>x. e = Inl x) \<or> e = Inr []")
    case True
    with less.prems c show ?thesis by (subst (asm) payload_loop.simps) (auto split: if_splits)
  next
    case False
    then obtain bs where bs: "e = Inr bs" "bs \<noteq> []" "m \<noteq> 0" by (cases e) auto
    obtain b f1 where w: "fs_write fs path n bs f = (b, f1)" by fastforce
    note k = keep_snd(3) [OF w assms(2)]
    show ?thesis
    proof (cases b)
      case False
      with less.prems c bs w k show ?thesis by (subst (asm) payload_loop.simps) auto
    next
      case True
      with less.prems c bs w have "payload_loop ops fs path (n + length bs) (m - length bs) s1 f1 = (r, s', f')"
        by (subst (asm) payload_loop.simps) auto
      moreover have "m - length bs < m" using bs by simp
      ultimately show ?thesis using less.IH k keep_trans by blast
    qed
  qed
qed

lemma receive_single_keeps:
  assumes "receive_single ops fs pipes options t f p = Some (r, s', f', p')" and "o_output_dir options = dir"
  shows "keep f f'"
proof -
  obtain e s1 where c: "connect_session ops ''hyperlink-file'' (new_session t) = (e, s1)" by fastforce
  obtain h s2 where h: "receive_header ops s1 = (h, s2)" by fastforce
  show ?thesis
  proof (cases "\<exists>u incoming. e = Inr u \<and> h = Inr incoming \<and> ih_kind incoming = File")
    case False
    with assms(1) c h show ?thesis
      by (auto simp: receive_single_def split: sum.splits if_splits)
  next
    case True
    then obtain incoming where i: "h = Inr incoming" "e = Inr ()" "ih_kind incoming = File" by auto
    let ?path = "join_path dir (ih_file_name incoming)"
    from h i(1) obtain name where "safe_file_name name = Inr (ih_file_name incoming)"
      by (auto simp: receive_header_def bindE_def liftE_def returnE_def split: prod.splits sum.splits)
    from entry_inside [OF entry_file [OF this]] have inside: "inside dir ?path" .
    obtain q s3 f3 where q: "receive_payload_to_file ops fs ?path (ih_payload_size incoming) s2 f = (q, s3, f3)"
      using prod_cases3 by blast
    then have "keep f f3"
      using inside keep_snd(1) [of ?path f] payload_loop_keeps keep_trans
      by (fastforce simp: receive_payload_to_file_def split: prod.splits bool.splits)
    with assms c h i q show ?thesis by (simp add: receive_single_def)
  qed
qed

end

text \<open>
  C3. The receiver stays inside its output directory. Let some relation between file-system states be
  respected by every change made on the output directory or on a path below it: for example
  that all files elsewhere are the same. Then whatever the peers send, on however many
  streams, however the threads interleave and whichever calls fail, the relation holds
  between the state before and the state at any moment of a parallel receive, and between
  the states before and after a single-stream one. Below is meant lexically, of the path
  as a C++ string: symbolic links met on the way and NUL bytes that cut the path short for
  the system are not resolved, and what \<^verbatim>\<open>tar\<close> writes when it extracts an archive is done by
  another process, behind the pipe.
\<close>

theorem receiver_stays_inside:
  assumes "file_frame fs keep (inside (o_output_dir options))"
  shows "((receive_step ops fs options)\<^sup>*\<^sup>* (start_receivers connection options f) (rs, shared, f') \<longrightarrow> keep f f') \<and>
    (receive_single ops fs pipes options t f p = Some (r, s', f'', p') \<longrightarrow> keep f f'')"
proof -
  have C: "confined_receiver fs keep (o_output_dir options)" by (rule confined_receiver.intro [OF assms])
  have "keep f f'" if "(receive_step ops fs options)\<^sup>*\<^sup>* (start_receivers connection options f) (rs, shared, f')"
    using confined_receiver.reachable_inside [OF C that refl]
    by (auto simp: start_receivers_def new_receiver_def shared_inside_def initial_shared_def)
  moreover have "keep f f''" if "receive_single ops fs pipes options t f p = Some (r, s', f'', p')"
    using confined_receiver.receive_single_keeps [OF C that refl] .
  ultimately show ?thesis by iprover
qed

interpretation mem_confined: confined_receiver mem_fs "\<lambda>f f'. \<forall>path. \<not> inside dir path \<longrightarrow> f' path = f path" dir for dir
  by (intro confined_receiver.intro, unfold_locales) (simp_all add: mem_fs_def)

definition in_options :: Options where
  "in_options = default_transfer_options\<lparr>o_receive := True, o_output_dir := ''in''\<rparr>"

lemma passwd_outside: "\<not> inside (o_output_dir in_options) ''passwd''"
proof
  assume "inside (o_output_dir in_options) ''passwd''"
  then obtain names where "denotes [] ''passwd'' = denotes [] ''in'' @ names" by (auto simp: inside_def in_options_def)
  then show False by (simp add: denotes_def is_absolute_def starts_with_def)
qed

theorem receiver_stays_inside_witness:
  "\<exists>s f. receive_single (tcp_ops mem_api) mem_fs mem_pipe in_options
      (mem_server (file_message ''passwd'' seven_bytes 1 0) default_endpoint) [''passwd'' \<mapsto> [9]] [] = Some (Inr 7, s, f, []) \<and>
    f ''passwd'' = Some [9] \<and> f ''in/passwd'' = Some [1, 2, 3, 4, 5, 6, 7]"
proof -
  let ?t = "mem_server (file_message ''passwd'' seven_bytes 1 0) default_endpoint"
  have n: "safe_file_name ''passwd'' = Inr ''passwd''" "length ''passwd'' \<le> 4096" "length seven_bytes < 2 ^ 64"
    by (simp_all add: safe_file_name_def filename_def seven_bytes_def)
  have d: "join_path (o_output_dir in_options) ''passwd'' = ''in/passwd''" "of_nat (length seven_bytes) = (7 :: u64)"
    by (simp_all add: in_options_def join_path_def is_absolute_def starts_with_def seven_bytes_def)
  from mem_reception.receive_single_file [where t = "accepted_client (file_message ''passwd'' seven_bytes 1 0) default_endpoint"
      and options = in_options and pipes = mem_pipe and f = "[''passwd'' \<mapsto> [9]]" and p = "[]",
      OF mem_server_connects [of "file_message ''passwd'' seven_bytes 1 0" default_endpoint] _ _ accepted_client_good n TrueI]
  obtain s f where r: "receive_single (tcp_ops mem_api) mem_fs mem_pipe in_options ?t [''passwd'' \<mapsto> [9]] [] = Some (Inr 7, s, f, [])"
    "f ''in/passwd'' = Some seven_bytes" unfolding d by auto
  note k = receiver_stays_inside [OF mem_confined.file_frame_axioms, THEN conjunct2, THEN mp, OF r(1)]
  have "f ''passwd'' = [''passwd'' \<mapsto> [9]] ''passwd''" using k passwd_outside by blast
  with r show ?thesis by (simp add: seven_bytes_def)
qed

end
