(* ===== verification/Discovery_Client.thy ===== *)
theory Discovery_Client
  imports Tcp_Transport
begin

unbundle bit_operations_syntax

text \<open>
  The network side of \<^verbatim>\<open>PeerDiscovery\<close> in \<^verbatim>\<open>src/peer_discovery.cpp\<close>, POSIX branch: the
  broadcast targets, collecting replies until the deadline, and the TCP throughput probe.
  Both loops depend on the clock and on the network, so they are partial functions whose
  \<open>None\<close> is \<^emph>\<open>does not return\<close>; that they return is proved from the progress of the clock.
  Times are in nanoseconds. Every handle is closed on every path. Descriptors are numbers of
  any size: that \<^verbatim>\<open>FD_SET\<close> is undefined from \<^verbatim>\<open>FD_SETSIZE\<close> on is not modelled. Rates are real
  numbers where the code has doubles.
\<close>

section \<open>Targets\<close>

record DiscoveryTarget =
  dt_bind_address :: string
  dt_destination :: string

definition ipv4_string :: "'w socket_api \<Rightarrow> u32 \<Rightarrow> string" where
  "ipv4_string api address = sys_inet_ntop api (Inet address 0)"

definition add_target :: "DiscoveryTarget list \<Rightarrow> string \<Rightarrow> string \<Rightarrow> DiscoveryTarget list" where
  "add_target targets bind_address destination =
     (if bind_address \<noteq> [] \<and> destination \<noteq> []
      then targets @ [\<lparr>dt_bind_address = bind_address, dt_destination = destination\<rparr>] else targets)"

definition interface_broadcast :: "ifaddr \<Rightarrow> u32 \<Rightarrow> u32" where
  "interface_broadcast item address =
     (case ifa_broadaddr item of
        Some broadcast \<Rightarrow> broadcast
      | None \<Rightarrow> (case ifa_netmask item of Some netmask_bits \<Rightarrow> address OR NOT netmask_bits | None \<Rightarrow> 0))"

fun interface_loop ::
  "'w socket_api \<Rightarrow> ifaddr list \<Rightarrow> DiscoveryTarget list \<Rightarrow> DiscoveryTarget list" where
  "interface_loop api [] targets = targets"
| "interface_loop api (item # items) targets =
     (case ifa_addr item of
        Some (AF_INET, address) \<Rightarrow>
          if \<not> ifa_up item then interface_loop api items targets
          else let host = ipv4_string api address
               in interface_loop api items
                    (add_target (add_target targets host (ipv4_string api (interface_broadcast item address)))
                      host ''255.255.255.255'')
      | _ \<Rightarrow> interface_loop api items targets)"

definition target_less :: "DiscoveryTarget \<Rightarrow> DiscoveryTarget \<Rightarrow> bool" where
  "target_less left right \<longleftrightarrow>
     (dt_bind_address left, dt_destination left) < (dt_bind_address right, dt_destination right)"

definition enumerate_discovery_targets :: "'w socket_api \<Rightarrow> 'w \<Rightarrow> DiscoveryTarget list \<times> 'w" where
  "enumerate_discovery_targets api w =
     (case sys_getifaddrs api w of ((status, interfaces), w') \<Rightarrow>
        let targets = (if status = 0 then interface_loop api interfaces [] else []);
            targets = add_target targets ''127.0.0.1'' ''127.0.0.1''
        in (remdups_adj (sort_by target_less targets), w'))"

definition ipv4_endpoint :: "'w socket_api \<Rightarrow> string \<Rightarrow> u16 \<Rightarrow> sockaddr result" where
  "ipv4_endpoint api host port =
     (case sys_inet_pton api host of
        Some address \<Rightarrow> Inr (Inet address port)
      | None \<Rightarrow> Inl (PeerDiscoveryError (''invalid IPv4 address: '' @ host)))"

section \<open>Collecting replies\<close>

text \<open>Closing all handles of a vector, as its destructor does.\<close>

definition close_all :: "'w socket_api \<Rightarrow> int list \<Rightarrow> 'w \<Rightarrow> 'w" where
  "close_all api sockets w = fold (close_socket api) sockets w"

text \<open>
  One socket per target; a target whose socket cannot be bound or used is skipped, an
  address that does not parse throws, which closes every socket opened so far.
\<close>

fun open_targets ::
  "'w socket_api \<Rightarrow> PeerDiscoveryOptions \<Rightarrow> DiscoveryTarget list \<Rightarrow> int list \<Rightarrow> ('w, int list) eff" where
  "open_targets api options [] sockets w = (Inr sockets, w)"
| "open_targets api options (target # targets) sockets w =
     (case sys_socket api AF_INET SOCK_DGRAM IPPROTO_UDP w of (socket, w1) \<Rightarrow>
      if socket = kInvalidSocket then open_targets api options targets sockets w1
      else
        let w2 = sys_setsockopt api socket SO_BROADCAST 1 w1 in
        case ipv4_endpoint api (dt_bind_address target) 0 of
          Inl e \<Rightarrow> (Inl e, close_all api sockets (close_socket api socket w2))
        | Inr local \<Rightarrow>
        case ipv4_endpoint api (dt_destination target) (pd_discovery_port options) of
          Inl e \<Rightarrow> (Inl e, close_all api sockets (close_socket api socket w2))
        | Inr destination \<Rightarrow>
        case sys_bind api socket local w2 of (bound, w3) \<Rightarrow>
        if bound \<noteq> 0 then open_targets api options targets sockets (close_socket api socket w3)
        else case sys_sendto api socket kDiscoveryMessage destination w3 of (sent, w4) \<Rightarrow>
             if sent < 0 then open_targets api options targets sockets (close_socket api socket w4)
             else open_targets api options targets (sockets @ [socket]) w4)"

text \<open>\<^verbatim>\<open>duration_cast\<close> from nanoseconds to microseconds truncates towards zero.\<close>

definition to_microseconds :: "int \<Rightarrow> int" where
  "to_microseconds ns = (if 0 \<le> ns then ns div 1000 else - (- ns div 1000))"

definition milliseconds :: "int \<Rightarrow> int" where
  "milliseconds ms = ms * 1000000"

fun read_ready ::
  "'w socket_api \<Rightarrow> int list \<Rightarrow> int list \<Rightarrow> reply list \<Rightarrow> 'w \<Rightarrow> reply list \<times> 'w" where
  "read_ready api readable [] replies w = (replies, w)"
| "read_ready api readable (socket # sockets) replies w =
     (if socket \<notin> set readable then read_ready api readable sockets replies w
      else case sys_recvfrom api socket (kMaximumAdvertisementBytes + 1) w of
             ((received, buffer, source), w') \<Rightarrow>
               if received > 0 \<and> discovery_datagram_within_limit (nat received)
               then read_ready api readable sockets
                      (replies @ [(take (nat received) buffer, sys_inet_ntop api source)]) w'
               else read_ready api readable sockets replies w')"

partial_function (option) reply_loop ::
  "'w socket_api \<Rightarrow> int list \<Rightarrow> int \<Rightarrow> reply list \<Rightarrow> 'w \<Rightarrow> (reply list \<times> 'w) option" where
  "reply_loop api sockets deadline replies w =
     (if sockets = [] then Some (replies, w)
      else case sys_now api w of (now, w1) \<Rightarrow>
           if \<not> now < deadline then Some (replies, w1)
           else case sys_now api w1 of (later, w2) \<Rightarrow>
                case sys_select api sockets [] (to_microseconds (deadline - later)) w2 of
                  ((ready, readable, writable), w3) \<Rightarrow>
                    if ready \<le> 0 then Some (replies, w3)
                    else case read_ready api readable sockets replies w3 of
                           (replies', w4) \<Rightarrow> reply_loop api sockets deadline replies' w4)"

definition receive_discovery_replies ::
  "'w socket_api \<Rightarrow> PeerDiscoveryOptions \<Rightarrow> 'w \<Rightarrow> (reply list result \<times> 'w) option" where
  "receive_discovery_replies api options w =
     (case enumerate_discovery_targets api w of (targets, w1) \<Rightarrow>
      case open_targets api options targets [] w1 of
        (Inl e, w2) \<Rightarrow> Some (Inl e, w2)
      | (Inr sockets, w2) \<Rightarrow>
          case sys_now api w2 of (now, w3) \<Rightarrow>
          case reply_loop api sockets (now + milliseconds (pd_discovery_timeout options)) [] w3 of
            None \<Rightarrow> None
          | Some (replies, w4) \<Rightarrow> Some (Inr replies, close_all api sockets w4))"

section \<open>The throughput probe\<close>

definition set_nonblocking :: "'w socket_api \<Rightarrow> int \<Rightarrow> ('w, unit) eff" where
  "set_nonblocking api socket w =
     (case sys_getfl api socket w of (flags, w1) \<Rightarrow>
      if flags < 0 then (Inl (Runtime_error (''could not configure TCP probe: '' @ sys_last_error api w1)), w1)
      else case sys_setfl_nonblock api socket flags w1 of (result, w2) \<Rightarrow>
           if result \<noteq> 0 then (Inl (Runtime_error (''could not configure TCP probe: '' @ sys_last_error api w2)), w2)
           else (Inr (), w2))"

definition wait_for_socket :: "'w socket_api \<Rightarrow> int \<Rightarrow> bool \<Rightarrow> int \<Rightarrow> ('w, unit) eff" where
  "wait_for_socket api socket write deadline w =
     (case sys_now api w of (now, w1) \<Rightarrow>
      let remaining = to_microseconds (deadline - now) in
      if remaining \<le> 0 then (Inl (Runtime_error ''probe timed out''), w1)
      else case sys_select api (if write then [] else [socket]) (if write then [socket] else []) remaining w1 of
             ((result, readable, writable), w2) \<Rightarrow>
               if result = 0 then (Inl (Runtime_error ''probe timed out''), w2)
               else if result < 0
               then (Inl (Runtime_error (''probe wait failed: '' @ sys_last_error api w2)), w2)
               else (Inr (), w2))"

definition probe_connect :: "'w socket_api \<Rightarrow> int \<Rightarrow> sockaddr \<Rightarrow> int \<Rightarrow> ('w, unit) eff" where
  "probe_connect api socket endpoint deadline w =
     (case sys_connect api socket endpoint w of (result, w1) \<Rightarrow>
      if result = 0 then (Inr (), w1)
      else if \<not> (sys_errno_in_progress api w1 \<or> sys_errno_would_block api w1)
      then (Inl (Runtime_error (''probe connect failed: '' @ sys_last_error api w1)), w1)
      else bindE (wait_for_socket api socket True deadline) (\<lambda>_ w2.
             case sys_so_error api socket w2 of ((status, error), w3) \<Rightarrow>
               if status \<noteq> 0 \<or> error \<noteq> 0
               then (Inl (Runtime_error (''probe connect failed: '' @ sys_strerror api error)), w3)
               else (Inr (), w3)) w1)"

definition kProbeBuffer :: nat where
  "kProbeBuffer = 64 * 1024"

partial_function (option) probe_receive_loop ::
  "'w socket_api \<Rightarrow> int \<Rightarrow> nat \<Rightarrow> int \<Rightarrow> nat \<Rightarrow> 'w \<Rightarrow> (nat result \<times> 'w) option" where
  "probe_receive_loop api socket payload deadline received w =
     (if \<not> received < payload then Some (Inr received, w)
      else case wait_for_socket api socket False deadline w of
             (Inl e, w1) \<Rightarrow> Some (Inl e, w1)
           | (Inr _, w1) \<Rightarrow>
               (case sys_recv api socket (min kProbeBuffer (payload - received)) w1 of
                  ((result, data), w2) \<Rightarrow>
                    if result < 0
                    then if sys_errno_would_block api w2
                         then probe_receive_loop api socket payload deadline received w2
                         else Some (Inl (Runtime_error (''probe receive failed: '' @ sys_last_error api w2)), w2)
                    else if result = 0 then Some (Inr received, w2)
                    else probe_receive_loop api socket payload deadline (received + nat result) w2))"

definition probe_rate :: "nat \<Rightarrow> int \<Rightarrow> real" where
  "probe_rate received elapsed_ns = real received / max (real_of_int elapsed_ns / 10 ^ 9) (1 / 10 ^ 9)"

text \<open>The body of \<^verbatim>\<open>probe_tcp_receive\<close> once the socket exists; its handle is closed by the caller.\<close>

definition probe_transfer ::
  "'w socket_api \<Rightarrow> int \<Rightarrow> nat \<Rightarrow> int \<Rightarrow> 'w \<Rightarrow> (real result \<times> 'w) option" where
  "probe_transfer api socket payload deadline w =
     (case sys_now api w of (started, w1) \<Rightarrow>
      case probe_receive_loop api socket payload deadline 0 w1 of
        None \<Rightarrow> None
      | Some (Inl e, w2) \<Rightarrow> Some (Inl e, w2)
      | Some (Inr received, w2) \<Rightarrow>
          if received = 0 then Some (Inl (Runtime_error ''probe received no data''), w2)
          else case sys_now api w2 of (now, w3) \<Rightarrow> Some (Inr (probe_rate received (now - started)), w3))"

definition probe_setup ::
  "'w socket_api \<Rightarrow> int \<Rightarrow> DiscoveredPeer \<Rightarrow> PeerDiscoveryOptions \<Rightarrow> ('w, int) eff" where
  "probe_setup api socket peer options =
     bindE (set_nonblocking api socket) (\<lambda>_.
     bindE (liftE (ipv4_endpoint api (pe_host (dp_endpoint peer)) (pe_probe_port (dp_endpoint peer)))) (\<lambda>endpoint.
     bindE (\<lambda>w. case sys_now api w of (now, w') \<Rightarrow> (Inr now, w')) (\<lambda>now.
     let deadline = now + milliseconds (pd_probe_timeout options) in
     bindE (probe_connect api socket endpoint deadline) (\<lambda>_.
     returnE deadline))))"

definition probe_tcp_receive ::
  "'w socket_api \<Rightarrow> PeerDiscoveryOptions \<Rightarrow> DiscoveredPeer \<Rightarrow> 'w \<Rightarrow> (real result \<times> 'w) option" where
  "probe_tcp_receive api options peer w =
     (case sys_socket api AF_INET SOCK_STREAM IPPROTO_TCP w of (socket, w1) \<Rightarrow>
      if socket = kInvalidSocket
      then Some (Inl (Runtime_error (''probe socket failed: '' @ sys_last_error api w1)), w1)
      else case probe_setup api socket peer options w1 of
             (Inl e, w2) \<Rightarrow> Some (Inl e, close_socket api socket w2)
           | (Inr deadline, w2) \<Rightarrow>
               map_option (\<lambda>(r, w3). (r, close_socket api socket w3))
                 (probe_transfer api socket (unat (pd_probe_payload_bytes options)) deadline w2))"

section \<open>PeerDiscovery\<close>

text \<open>
  The code that composes discovery and probes is shared with the test harness, over any
  state. Here the state is the world, or \<open>None\<close> once a loop did not return: nothing that
  comes after a call that does not return happens.
\<close>

definition may_hang :: "('w \<Rightarrow> ('a result \<times> 'w) option) \<Rightarrow> ('w option, 'a) eff" where
  "may_hang f s =
     (case Option.bind s f of
        None \<Rightarrow> (Inl (Runtime_error []), None)
      | Some (r, w) \<Rightarrow> (r, Some w))"

definition returned :: "'a result \<times> 'w option \<Rightarrow> ('a result \<times> 'w) option" where
  "returned answer = map_option (Pair (fst answer)) (snd answer)"

definition discover :: "'w socket_api \<Rightarrow> PeerDiscoveryOptions \<Rightarrow> 'w \<Rightarrow> (DiscoveredPeer list result \<times> 'w) option" where
  "discover api options w =
     returned (discover_peers (\<lambda>options. may_hang (receive_discovery_replies api options)) options (Some w))"

definition select_fastest ::
  "'w socket_api \<Rightarrow> PeerDiscoveryOptions \<Rightarrow> 'w \<Rightarrow> (DiscoveredPeer result \<times> 'w) option" where
  "select_fastest api options w =
     returned (discover_and_rank (\<lambda>options. may_hang (receive_discovery_replies api options))
       (\<lambda>peer. may_hang (probe_tcp_receive api options peer)) options (Some w))"

definition connect_fastest ::
  "'w socket_api \<Rightarrow> PeerDiscoveryOptions \<Rightarrow> TcpEndpoint \<Rightarrow> 'w \<Rightarrow> (TcpTransport result \<times> 'w) option" where
  "connect_fastest api options endpoint w =
     map_option (\<lambda>(r, w'). (map_sum id (\<lambda>peer. make_tcp_client_transport (selected_tcp_endpoint endpoint peer)) r, w'))
       (select_fastest api options w)"

section \<open>The targets are a sorted set\<close>

text \<open>What an interface asks for: when it is up, its own and the limited broadcast.\<close>

definition interface_targets :: "'w socket_api \<Rightarrow> ifaddr \<Rightarrow> DiscoveryTarget set" where
  "interface_targets api item =
     {\<lparr>dt_bind_address = ipv4_string api address, dt_destination = destination\<rparr> |address destination.
        ifa_addr item = Some (AF_INET, address) \<and> ifa_up item \<and>
        ipv4_string api address \<noteq> [] \<and> destination \<noteq> [] \<and>
        destination \<in> {ipv4_string api (interface_broadcast item address), ''255.255.255.255''}}"

lemma set_add_target:
  "set (add_target targets host destination) =
     set targets \<union> (if host \<noteq> [] \<and> destination \<noteq> []
       then {\<lparr>dt_bind_address = host, dt_destination = destination\<rparr>} else {})"
  by (auto simp: add_target_def)

lemma interface_targets_eq:
  "interface_targets api item =
     (case ifa_addr item of
        Some (AF_INET, address) \<Rightarrow>
          if ifa_up item
          then set (add_target (add_target [] (ipv4_string api address)
                  (ipv4_string api (interface_broadcast item address)))
                (ipv4_string api address) ''255.255.255.255'')
          else {}
      | _ \<Rightarrow> {})"
  by (auto simp: interface_targets_def set_add_target split: option.splits prod.splits family.splits)

lemma set_interface_loop:
  "set (interface_loop api items targets) = set targets \<union> (\<Union>item \<in> set items. interface_targets api item)"
proof (induction api items targets rule: interface_loop.induct)
  case (2 api item items targets)
  then show ?case
    by (auto simp: interface_targets_eq [of api item] set_add_target Let_def
        split: option.splits prod.splits family.splits)
qed simp

lemma remdups_adj_strict: "sorted (map key xs) \<Longrightarrow> inj_on key (set xs) \<Longrightarrow>
    sorted_wrt (\<lambda>a b. key a < key b) (remdups_adj xs)"
  for key :: "'a \<Rightarrow> 'k::linorder"
proof (induction xs rule: remdups_adj.induct)
  case (3 x y xs)
  have "inj_on key (set (y # xs))" "sorted (map key (y # xs))" using 3 by (auto simp: inj_on_def)
  moreover have "x \<noteq> y \<Longrightarrow> z \<in> set (remdups_adj (y # xs)) \<Longrightarrow> key x < key z" for z
    using 3(3,4) by (auto simp: inj_on_def order_less_le)
  ultimately show ?case using 3 by auto
qed auto

definition target_key :: "DiscoveryTarget \<Rightarrow> string \<times> string" where
  "target_key target = (dt_bind_address target, dt_destination target)"

lemma target_less_key: "target_less = (\<lambda>a b. target_key a < target_key b)"
  by (intro ext) (simp add: target_less_def target_key_def)

lemma inj_target_key: "inj target_key"
  by (auto simp: inj_on_def target_key_def)

definition loopback_target :: DiscoveryTarget where
  "loopback_target = \<lparr>dt_bind_address = ''127.0.0.1'', dt_destination = ''127.0.0.1''\<rparr>"

text \<open>
  C29. The discovery targets. Whatever the interface list holds, the targets are exactly the
  loopback pair and, when the list could be read, the directed and the limited broadcast
  of every active IPv4 interface whose addresses print; they come strictly sorted, hence
  without repetition, so that no interface is asked twice.
\<close>

theorem enumerate_discovery_targets_exact:
  "sorted_wrt target_less (fst (enumerate_discovery_targets api w)) \<and>
   distinct (fst (enumerate_discovery_targets api w)) \<and>
   set (fst (enumerate_discovery_targets api w)) =
     insert loopback_target
       (if fst (fst (sys_getifaddrs api w)) = 0
        then \<Union>item \<in> set (snd (fst (sys_getifaddrs api w))). interface_targets api item else {})"
proof -
  obtain status interfaces w' where g: "sys_getifaddrs api w = ((status, interfaces), w')" by (metis surj_pair)
  let ?targets = "fst (enumerate_discovery_targets api w)"
  let ?all = "add_target (if status = 0 then interface_loop api interfaces [] else []) ''127.0.0.1'' ''127.0.0.1''"
  have ts: "?targets = remdups_adj (sort_by target_less ?all)"
    using g by (simp add: enumerate_discovery_targets_def Let_def)
  have "sorted (map target_key (sort_by target_less ?all))"
    by (rule sorted_sort_by) (simp add: target_less_key)
  from remdups_adj_strict [OF this inj_on_subset [OF inj_target_key subset_UNIV]]
  have strict: "sorted_wrt target_less ?targets" unfolding ts target_less_key .
  moreover have "sorted_wrt target_less ts \<Longrightarrow> distinct ts" for ts
    by (induction ts) (auto simp: target_less_def)
  moreover have "set ?targets = insert loopback_target
      (if status = 0 then \<Union>item \<in> set interfaces. interface_targets api item else {})"
    by (auto simp: ts set_add_target set_interface_loop loopback_target_def)
  ultimately show ?thesis by (simp add: g)
qed

section \<open>Descriptors of discovery\<close>

lemma close_all_simps [simp]:
  "close_all api [] w = w" "close_all api (s # ss) w = close_all api ss (close_socket api s w)"
  by (simp_all add: close_all_def)

context descriptors
begin

lemma close_all_fds: "-1 \<notin> set sockets \<Longrightarrow> open_fds (close_all api sockets w) = open_fds w - set sockets"
  by (induction sockets arbitrary: w) (auto simp: close_socket_fds kInvalidSocket_def)

text \<open>
  The sockets opened so far are live and are not among the descriptors that were open
  before; a throw has closed all of them.
\<close>

definition opened :: "int set \<Rightarrow> int list \<Rightarrow> 'w \<Rightarrow> bool" where
  "opened before sockets w \<longleftrightarrow> -1 \<notin> set sockets \<and> set sockets \<inter> before = {} \<and>
     open_fds w = before \<union> set sockets"

lemma opened_close_all: "opened before sockets w \<Longrightarrow> open_fds (close_all api sockets w) = before"
  by (auto simp: opened_def close_all_fds)

lemma opened_frame: "opened before sockets w \<Longrightarrow> open_fds w' = open_fds w \<Longrightarrow> opened before sockets w'"
  by (simp add: opened_def)

lemma opened_socket:
  assumes "opened before sockets w" and "sys_socket api f t p w = (fd, w')"
  shows "fd = -1 \<and> opened before sockets w' \<or>
    fd \<noteq> -1 \<and> opened before (sockets @ [fd]) w' \<and> fd \<notin> set sockets"
  using assms socket_fd [OF assms(2)] by (auto simp: opened_def)

lemma opened_close_last:
  "opened before (sockets @ [fd]) w \<Longrightarrow> fd \<notin> set sockets \<Longrightarrow> opened before sockets (close_socket api fd w)"
  by (auto simp: opened_def close_socket_fds kInvalidSocket_def)

lemma open_targets_opened:
  assumes "open_targets api options targets sockets w = (r, w')" and "opened before sockets w"
  shows "case r of Inl _ \<Rightarrow> open_fds w' = before | Inr sockets' \<Rightarrow> opened before sockets' w'"
  using assms
proof (induction targets arbitrary: sockets w)
  case Nil
  then show ?case by auto
next
  case (Cons target targets)
  obtain fd w1 where fd: "sys_socket api AF_INET SOCK_DGRAM IPPROTO_UDP w = (fd, w1)" by fastforce
  show ?case
  proof (cases "fd = -1")
    case True
    with Cons fd opened_socket [OF Cons.prems(2) fd] show ?thesis by (auto simp: kInvalidSocket_def)
  next
    case False
    let ?w2 = "sys_setsockopt api fd SO_BROADCAST 1 w1"
    from opened_socket [OF Cons.prems(2) fd] False
    have new: "opened before (sockets @ [fd]) ?w2" and fresh: "fd \<notin> set sockets"
      by (auto simp: opened_def other_fd)
    have throw: "open_fds (close_all api sockets (close_socket api fd ?w2)) = before"
      using opened_close_all [OF opened_close_last [OF new fresh]] .
    show ?thesis
    proof (cases "ipv4_endpoint api (dt_bind_address target) 0")
      case (Inl e)
      with Cons.prems fd False throw show ?thesis by (auto simp: Let_def kInvalidSocket_def)
    next
      case bind: (Inr local)
      show ?thesis
      proof (cases "ipv4_endpoint api (dt_destination target) (pd_discovery_port options)")
        case (Inl e)
        with bind Cons.prems fd False throw show ?thesis by (auto simp: Let_def kInvalidSocket_def)
      next
        case dest: (Inr destination)
        obtain b w3 where b: "sys_bind api fd local ?w2 = (b, w3)" by fastforce
        obtain n w4 where n: "sys_sendto api fd kDiscoveryMessage destination w3 = (n, w4)" by fastforce
        have new3: "opened before (sockets @ [fd]) w3" using opened_frame [OF new] other_fd_eq(3) [OF b] by blast
        then have new4: "opened before (sockets @ [fd]) w4" using opened_frame other_fd_eq(7) [OF n] by blast
        show ?thesis
          using Cons.prems fd False bind dest b n Cons.IH [OF _ new4]
            Cons.IH [OF _ opened_close_last [OF new3 fresh]] Cons.IH [OF _ opened_close_last [OF new4 fresh]]
          by (auto simp: Let_def kInvalidSocket_def split: if_splits)
      qed
    qed
  qed
qed

lemma read_ready_fds: "read_ready api readable sockets replies w = (rs, w') \<Longrightarrow> open_fds w' = open_fds w"
  by (induction sockets arbitrary: replies w)
    (auto split: if_splits prod.splits dest: other_fd_eq(8))

lemma set_nonblocking_fds: "set_nonblocking api fd w = (r, w') \<Longrightarrow> open_fds w' = open_fds w"
  by (auto simp: set_nonblocking_def split: prod.splits if_splits dest!: other_fd_eq(10,11))

lemma wait_for_socket_fds: "wait_for_socket api fd write deadline w = (r, w') \<Longrightarrow> open_fds w' = open_fds w"
  by (auto simp: wait_for_socket_def Let_def split: prod.splits if_splits dest!: other_fd_eq(9,13))

end

section \<open>The loops return\<close>

text \<open>
  Specification side: a run of the receiving phase on a set of sockets, as the calls that
  change the world, with the datagrams it accepts. Clock readings and waits add nothing;
  of each datagram that one of the sockets delivers, its bytes and its printed source are
  kept when it has between 1 and 512 bytes and are dropped otherwise.
\<close>

inductive udp_run :: "'w socket_api \<Rightarrow> int list \<Rightarrow> 'w \<Rightarrow> reply list \<Rightarrow> 'w \<Rightarrow> bool"
  for api :: "'w socket_api" and sockets :: "int list" and start :: 'w where
  udp_start: "udp_run api sockets start [] start"
| udp_clock: "udp_run api sockets start rs w \<Longrightarrow> sys_now api w = (t, w') \<Longrightarrow> udp_run api sockets start rs w'"
| udp_wait: "udp_run api sockets start rs w \<Longrightarrow> sys_select api sockets [] timeout w = (r, w') \<Longrightarrow>
    udp_run api sockets start rs w'"
| udp_dropped: "udp_run api sockets start rs w \<Longrightarrow> fd \<in> set sockets \<Longrightarrow>
    sys_recvfrom api fd 513 w = ((n, buffer, source), w') \<Longrightarrow> \<not> (0 < n \<and> n \<le> 512) \<Longrightarrow>
    udp_run api sockets start rs w'"
| udp_kept: "udp_run api sockets start rs w \<Longrightarrow> fd \<in> set sockets \<Longrightarrow>
    sys_recvfrom api fd 513 w = ((n, buffer, source), w') \<Longrightarrow> 0 < n \<Longrightarrow> n \<le> 512 \<Longrightarrow>
    udp_run api sockets start (rs @ [(take (nat n) buffer, sys_inet_ntop api source)]) w'"

lemma read_ready_run:
  assumes "read_ready api readable ss replies w = (rs, w')" and "set ss \<subseteq> set sockets"
    and "udp_run api sockets start replies w"
  shows "udp_run api sockets start rs w'"
  using assms
proof (induction ss arbitrary: replies w)
  case (Cons fd ss)
  obtain n buffer source w1 where r: "sys_recvfrom api fd 513 w = ((n, buffer, source), w1)" by (metis surj_pair)
  have "fd \<in> set sockets" using Cons.prems by simp
  note run = udp_dropped [OF Cons.prems(3) this r] udp_kept [OF Cons.prems(3) this r]
  have lim: "discovery_datagram_within_limit (nat n) \<longleftrightarrow> n \<le> 512"
    by (auto simp: discovery_datagram_within_limit_def kMaximumAdvertisementBytes_def)
  show ?case
  proof (cases "fd \<in> set readable")
    case False
    with Cons show ?thesis by simp
  next
    case True
    with Cons.prems Cons.IH run r lim show ?thesis
      by (cases "0 < n \<and> n \<le> 512") (auto simp: kMaximumAdvertisementBytes_def)
  qed
qed simp

text \<open>
  The replies that a discovery starting in world \<open>w\<close> has received: datagrams that arrived on the
  sockets it opened for its targets.
\<close>

definition received_replies :: "'w socket_api \<Rightarrow> PeerDiscoveryOptions \<Rightarrow> 'w \<Rightarrow> reply list \<Rightarrow> bool" where
  "received_replies api options w replies \<longleftrightarrow>
     (\<exists>targets w1 sockets w2 w3. enumerate_discovery_targets api w = (targets, w1) \<and>
        open_targets api options targets [] w1 = (Inr sockets, w2) \<and> udp_run api sockets w2 replies w3)"

context clocked_sockets
begin

lemma read_ready_time: "read_ready api readable sockets replies w = (rs, w') \<Longrightarrow> time w \<le> time w'"
proof (induction sockets arbitrary: replies w)
  case (Cons socket sockets)
  obtain n buffer source w1
    where r: "sys_recvfrom api socket (kMaximumAdvertisementBytes + 1) w = ((n, buffer, source), w1)"
    by (metis surj_pair)
  with Cons time_eq(3) [OF r] show ?case by (fastforce split: if_splits)
qed simp

lemma reply_loop_returns:
  "udp_run api sockets start replies w \<Longrightarrow>
   \<exists>rs w'. reply_loop api sockets deadline replies w = Some (rs, w') \<and> open_fds w' = open_fds w \<and>
     udp_run api sockets start rs w'"
proof (induction "nat (deadline - time w)" arbitrary: replies w rule: less_induct)
  case less
  obtain t1 w1 where n1: "sys_now api w = (t1, w1)" by fastforce
  obtain t2 w2 where n2: "sys_now api w1 = (t2, w2)" by fastforce
  obtain ready readable writable w3
    where sel: "sys_select api sockets [] (to_microseconds (deadline - t2)) w2 = ((ready, readable, writable), w3)"
    by (metis surj_pair)
  obtain rs w4 where rd: "read_ready api readable sockets replies w3 = (rs, w4)" by fastforce
  have fds: "open_fds w1 = open_fds w" "open_fds w3 = open_fds w" "open_fds w4 = open_fds w"
    using other_fd_eq(13) [OF n1] other_fd_eq(13) [OF n2] other_fd_eq(9) [OF sel] read_ready_fds [OF rd] by auto
  note run1 = udp_clock [OF less.prems n1]
  note run3 = udp_wait [OF udp_clock [OF run1 n2] sel]
  show ?case
  proof (cases "sockets = [] \<or> \<not> t1 < deadline \<or> ready \<le> 0")
    case True
    then show ?thesis by (subst reply_loop.simps) (use n1 n2 sel fds less.prems run1 run3 in auto)
  next
    case False
    have "nat (deadline - time w4) < nat (deadline - time w)"
      using now_law [OF n1] now_law [OF n2] time_eq(1) [OF sel] read_ready_time [OF rd] False by linarith
    from less.hyps [OF this read_ready_run [OF rd subset_refl run3]] fds show ?thesis
      by (subst reply_loop.simps) (use n1 n2 sel rd False in auto)
  qed
qed

lemma wait_for_socket_time: "wait_for_socket api fd write deadline w = (Inr u, w') \<Longrightarrow> time w < time w' \<and> time w < deadline"
proof -
  assume w: "wait_for_socket api fd write deadline w = (Inr u, w')"
  obtain t w1 where n: "sys_now api w = (t, w1)" by fastforce
  let ?call = "sys_select api (if write then [] else [fd]) (if write then [fd] else []) (to_microseconds (deadline - t)) w1"
  obtain r rs ws where s: "?call = ((r, rs, ws), w')" and p: "0 < to_microseconds (deadline - t)"
    using w n by (auto simp: wait_for_socket_def Let_def split: prod.splits if_splits)
  from p have "t < deadline"
    by (auto simp: to_microseconds_def split: if_splits)
  with now_law [OF n] time_eq(1) [OF s] show ?thesis by auto
qed

text \<open>The probe loop never counts more than the requested bytes.\<close>

lemma probe_receive_loop_returns:
  "received \<le> payload \<Longrightarrow>
   \<exists>r w'. probe_receive_loop api fd payload deadline received w = Some (r, w') \<and> open_fds w' = open_fds w \<and>
     time w \<le> time w' \<and> (\<forall>n. r = Inr n \<longrightarrow> received \<le> n \<and> n \<le> payload)"
proof (induction "nat (deadline - time w)" arbitrary: received w rule: less_induct)
  case less
  obtain u w1 where u: "wait_for_socket api fd False deadline w = (u, w1)" by fastforce
  let ?cap = "min kProbeBuffer (payload - received)"
  obtain n data w2 where rc: "sys_recv api fd ?cap w1 = ((n, data), w2)" by (metis surj_pair)
  have fds: "open_fds w1 = open_fds w" "open_fds w2 = open_fds w"
    using wait_for_socket_fds [OF u] other_fd_eq(6) [OF rc] by auto
  show ?case
  proof (cases "received < payload")
    case False
    with less.prems show ?thesis by (subst probe_receive_loop.simps) auto
  next
    case more: True
    show ?thesis
    proof (cases u)
      case (Inl e)
      have "time w \<le> time w1" using u
        by (auto simp: wait_for_socket_def Let_def split: prod.splits if_splits dest!: now_law time_eq(1))
      then show ?thesis by (subst probe_receive_loop.simps) (use more u Inl fds in auto)
    next
      case (Inr v)
      have t: "time w < time w2" "time w < deadline"
        using wait_for_socket_time [of fd False deadline w v w1] u Inr time_eq(2) [OF rc] by auto
      then have dec: "nat (deadline - time w2) < nat (deadline - time w)" by linarith
      show ?thesis
      proof (cases "n < 0 \<and> \<not> sys_errno_would_block api w2 \<or> n = 0")
        case True
        then show ?thesis by (subst probe_receive_loop.simps) (use more u Inr rc fds t in auto)
      next
        case False
        have le: "received + nat n \<le> payload" using recv_law [OF rc] more by (cases "0 \<le> n") auto
        have step: "probe_receive_loop api fd payload deadline received w =
            probe_receive_loop api fd payload deadline (received + nat n) w2"
          by (subst probe_receive_loop.simps) (use more u Inr rc False in auto)
        from less.hyps [OF dec le] fds t show ?thesis unfolding step by fastforce
      qed
    qed
  qed
qed

lemma probe_connect_fds: "probe_connect api fd a deadline w = (r, w') \<Longrightarrow> open_fds w' = open_fds w"
  by (auto simp: probe_connect_def bindE_def split: prod.splits if_splits sum.splits
      dest!: other_fd_eq(2,12) wait_for_socket_fds)

lemma probe_setup_fds: "probe_setup api fd peer options w = (r, w') \<Longrightarrow> open_fds w' = open_fds w"
  by (auto simp: probe_setup_def bindE_def liftE_def returnE_def Let_def split: prod.splits sum.splits
      dest!: set_nonblocking_fds other_fd_eq(13) probe_connect_fds)

lemma probe_rate_bounds:
  assumes "0 < received" "received \<le> payload"
  shows "0 < probe_rate received elapsed" "probe_rate received elapsed \<le> real payload * 10 ^ 9"
proof -
  let ?d = "max (real_of_int elapsed / 10 ^ 9) (1 / 10 ^ 9)"
  have d: "1 / 10 ^ 9 \<le> ?d" "0 < ?d" by auto
  then show "0 < probe_rate received elapsed" using assms by (simp add: probe_rate_def)
  have "real received / ?d \<le> real payload / (1 / 10 ^ 9)" using d assms by (intro frac_le) auto
  then show "probe_rate received elapsed \<le> real payload * 10 ^ 9" by (simp add: probe_rate_def)
qed

lemma probe_transfer_returns:
  "\<exists>r w'. probe_transfer api fd payload deadline w = Some (r, w') \<and> open_fds w' = open_fds w \<and>
     (\<forall>rate. r = Inr rate \<longrightarrow> 0 < rate \<and> rate \<le> real payload * 10 ^ 9)"
proof -
  obtain t w1 where n: "sys_now api w = (t, w1)" by fastforce
  from probe_receive_loop_returns [of 0 payload fd deadline w1] obtain r w2
    where l: "probe_receive_loop api fd payload deadline 0 w1 = Some (r, w2)" "open_fds w2 = open_fds w1"
      "\<And>k. r = Inr k \<Longrightarrow> k \<le> payload" by auto
  obtain t' w3 where n': "sys_now api w2 = (t', w3)" by fastforce
  show ?thesis
    using n l n' other_fd_eq(13) [OF n] other_fd_eq(13) [OF n'] probe_rate_bounds
    by (cases r) (auto simp: probe_transfer_def)
qed

lemma probe_tcp_receive_returns:
  "\<exists>r w'. probe_tcp_receive api options peer w = Some (r, w') \<and> open_fds w' = open_fds w \<and>
     (\<forall>rate. r = Inr rate \<longrightarrow> 0 < rate \<and> rate \<le> real (unat (pd_probe_payload_bytes options)) * 10 ^ 9)"
proof -
  obtain fd w1 where s: "sys_socket api AF_INET SOCK_STREAM IPPROTO_TCP w = (fd, w1)" by fastforce
  obtain d w2 where p: "probe_setup api fd peer options w1 = (d, w2)" by fastforce
  show ?thesis
  proof (cases "fd = -1")
    case True
    with s socket_fd [OF s] show ?thesis by (simp add: probe_tcp_receive_def kInvalidSocket_def)
  next
    case False
    with socket_fd [OF s] have fd: "fd \<notin> open_fds w" "open_fds w1 = insert fd (open_fds w)" by auto
    then have closed: "open_fds (close_socket api fd w') = open_fds w" if "open_fds w' = open_fds w2" for w'
      using that probe_setup_fds [OF p] False by (auto simp: close_socket_fds kInvalidSocket_def)
    show ?thesis
    proof (cases d)
      case (Inl e)
      with s p False closed show ?thesis by (simp add: probe_tcp_receive_def kInvalidSocket_def)
    next
      case (Inr deadline)
      obtain r w3 where t: "probe_transfer api fd (unat (pd_probe_payload_bytes options)) deadline w2 = Some (r, w3)"
        "open_fds w3 = open_fds w2"
        "\<forall>rate. r = Inr rate \<longrightarrow> 0 < rate \<and> rate \<le> real (unat (pd_probe_payload_bytes options)) * 10 ^ 9"
        using probe_transfer_returns by blast
      with s p False Inr closed [OF t(2)] show ?thesis by (simp add: probe_tcp_receive_def kInvalidSocket_def)
    qed
  qed
qed

lemma receive_discovery_replies_returns:
  "\<exists>r w'. receive_discovery_replies api options w = Some (r, w') \<and> open_fds w' = open_fds w \<and>
     (\<forall>rs. r = Inr rs \<longrightarrow> received_replies api options w rs)"
proof -
  obtain targets w1 where e: "enumerate_discovery_targets api w = (targets, w1)" by fastforce
  have w1: "open_fds w1 = open_fds w"
    using e by (auto simp: enumerate_discovery_targets_def Let_def split: prod.splits dest!: other_fd_eq(14))
  obtain r w2 where o: "open_targets api options targets [] w1 = (r, w2)" by fastforce
  have op: "case r of Inl _ \<Rightarrow> open_fds w2 = open_fds w | Inr sockets \<Rightarrow> opened (open_fds w) sockets w2"
    using open_targets_opened [OF o, of "open_fds w"] w1 by (simp add: opened_def)
  show ?thesis
  proof (cases r)
    case (Inl e')
    with e o op show ?thesis by (simp add: receive_discovery_replies_def)
  next
    case (Inr sockets)
    obtain t w3 where n: "sys_now api w2 = (t, w3)" by fastforce
    let ?deadline = "t + milliseconds (pd_discovery_timeout options)"
    obtain rs w4 where l: "reply_loop api sockets ?deadline [] w3 = Some (rs, w4)" "open_fds w4 = open_fds w3"
      "udp_run api sockets w2 rs w4"
      using reply_loop_returns [OF udp_clock [OF udp_start n], where deadline = ?deadline] by blast
    then have "received_replies api options w rs" using e o Inr by (auto simp: received_replies_def)
    moreover have "opened (open_fds w) sockets w4"
      using op Inr l(2) other_fd_eq(13) [OF n] by (simp add: opened_def)
    ultimately show ?thesis using opened_close_all e o Inr n l by (simp add: receive_discovery_replies_def)
  qed
qed

end

section \<open>Choosing a peer\<close>

lemma ipv4_endpoint_error: "ipv4_endpoint api host port = Inl e \<Longrightarrow> \<exists>m. e = PeerDiscoveryError m"
  by (auto simp: ipv4_endpoint_def split: option.splits)

lemma open_targets_error: "open_targets api options targets sockets w = (Inl e, w') \<Longrightarrow> \<exists>m. e = PeerDiscoveryError m"
  by (induction targets arbitrary: sockets w)
    (auto simp: Let_def split: prod.splits if_splits sum.splits dest: ipv4_endpoint_error)

lemma receive_discovery_replies_error:
  "receive_discovery_replies api options w = Some (Inl e, w') \<Longrightarrow> \<exists>m. e = PeerDiscoveryError m"
  by (auto simp: receive_discovery_replies_def split: prod.splits sum.splits option.splits dest: open_targets_error)

text \<open>
  A peer that discovery has heard of: up to its measured rate, it is what some datagram that
  was received advertises.
\<close>

definition heard :: "'w socket_api \<Rightarrow> PeerDiscoveryOptions \<Rightarrow> 'w \<Rightarrow> DiscoveredPeer \<Rightarrow> bool" where
  "heard api options w peer \<longleftrightarrow>
     (\<exists>replies message source. received_replies api options w replies \<and> (message, source) \<in> set replies \<and>
        advertises message source (peer\<lparr>dp_measured_bytes_per_second := 0\<rparr>))"

lemma deduplicated_advertised:
  "c \<in> set (deduplicate_candidates replies) \<Longrightarrow> \<exists>m src. (m, src) \<in> set replies \<and> advertises m src c"
proof -
  assume "c \<in> set (deduplicate_candidates replies)"
  then have "c \<in> set (valid_replies replies)" using set_firsts by (auto simp: deduplicate_firsts)
  then show ?thesis
    by (auto simp: valid_replies_def in_map_filter dest: parse_advertisement_advertises)
qed

lemma measured_SomeE:
  assumes "measured x = Some p"
  obtains c rate where "x = (c, Inr rate)" "p = c\<lparr>dp_measured_bytes_per_second := rate\<rparr>"
  using assms by (cases x; cases "snd x") (auto simp: measured_def)

context clocked_sockets
begin

abbreviation probing :: "PeerDiscoveryOptions \<Rightarrow> DiscoveredPeer \<Rightarrow> ('w option, real) eff" where
  "probing options peer \<equiv> may_hang (probe_tcp_receive api options peer)"

lemma probe_outcomes_returns:
  "\<exists>rs w'. probe_outcomes (probing options) cs (Some w) = (rs, Some w') \<and> open_fds w' = open_fds w \<and>
     (\<forall>(c, r) \<in> set rs. \<forall>rate. r = Inr rate \<longrightarrow>
        0 < rate \<and> rate \<le> real (unat (pd_probe_payload_bytes options)) * 10 ^ 9)"
proof (induction cs arbitrary: w)
  case (Cons c cs)
  obtain r w1 where r: "probe_tcp_receive api options c w = Some (r, w1)" "open_fds w1 = open_fds w"
    "\<forall>rate. r = Inr rate \<longrightarrow> 0 < rate \<and> rate \<le> real (unat (pd_probe_payload_bytes options)) * 10 ^ 9"
    using probe_tcp_receive_returns [of options c w] by blast
  from Cons.IH [of w1] r show ?case by (fastforce simp: may_hang_def)
qed simp

lemma select_fastest_outcome:
  "\<exists>r w'. select_fastest api options w = Some (r, w') \<and> open_fds w' = open_fds w \<and>
     (case r of
        Inl e \<Rightarrow> (\<exists>m. e = PeerDiscoveryError m)
      | Inr peer \<Rightarrow> heard api options w peer \<and> 0 < dp_measured_bytes_per_second peer \<and>
          dp_measured_bytes_per_second peer \<le> real (unat (pd_probe_payload_bytes options)) * 10 ^ 9)"
proof -
  obtain a w1 where a: "receive_discovery_replies api options w = Some (a, w1)" "open_fds w1 = open_fds w"
    "\<forall>rs. a = Inr rs \<longrightarrow> received_replies api options w rs"
    using receive_discovery_replies_returns [of options w] by blast
  show ?thesis
  proof (cases a)
    case (Inl e)
    with a receive_discovery_replies_error [of api options w e w1] show ?thesis
      by (simp add: select_fastest_def discover_and_rank_def bindE_def may_hang_def returned_def)
  next
    case (Inr replies)
    obtain rs w2 where o: "probe_outcomes (probing options) (deduplicate_candidates replies) (Some w1) = (rs, Some w2)"
      "open_fds w2 = open_fds w1"
      "\<forall>(c, r) \<in> set rs. \<forall>rate. r = Inr rate \<longrightarrow>
         0 < rate \<and> rate \<le> real (unat (pd_probe_payload_bytes options)) * 10 ^ 9"
      using probe_outcomes_returns [of options "deduplicate_candidates replies" w1] by blast
    have cs: "map fst rs = deduplicate_candidates replies"
      using probe_outcomes_fst [of "probing options" "deduplicate_candidates replies" "Some w1"] o by simp
    have ms: "heard api options w p \<and> 0 < dp_measured_bytes_per_second p \<and>
        dp_measured_bytes_per_second p \<le> real (unat (pd_probe_payload_bytes options)) * 10 ^ 9"
      if p: "p \<in> set (List.map_filter measured rs)" for p
    proof -
      from p obtain x where x: "x \<in> set rs" "measured x = Some p" by (auto simp: in_map_filter)
      from x(2) x(1) obtain c rate
        where c: "(c, Inr rate) \<in> set rs" "p = c\<lparr>dp_measured_bytes_per_second := rate\<rparr>"
        by (auto elim: measured_SomeE)
      then have "c \<in> set (deduplicate_candidates replies)" unfolding cs [symmetric] by force
      then obtain m src where m: "(m, src) \<in> set replies" "advertises m src c" using deduplicated_advertised by blast
      then have "p\<lparr>dp_measured_bytes_per_second := 0\<rparr> = c" by (simp add: c advertises_def)
      with m a(3) Inr have "heard api options w p" unfolding heard_def by auto
      with c o(3) show ?thesis by auto
    qed
    from a Inr o(2) rank_by_outcomes [OF o(1)] select_fastest_measured [OF cs] ms show ?thesis
      by (auto simp: select_fastest_def discover_and_rank_def bindE_def may_hang_def returned_def
          no_peer_def all_failed_def)
  qed
qed

end

text \<open>
  C28. Peer selection returns. If time passes, \<^verbatim>\<open>PeerDiscovery::select_fastest\<close> returns, whatever the
  network answers: neither waiting for replies nor any probe hangs. It leaves open
  exactly the descriptors that were open before; its only exceptions are
  \<^verbatim>\<open>PeerDiscoveryError\<close>; a peer it selects was heard: a datagram of at most 512 bytes that
  arrived on one of the sockets opened for the targets advertises it, under the address the
  datagram came from; and its measured rate is above zero and at most the payload per
  nanosecond.
\<close>

theorem select_fastest_returns:
  assumes "clocked_sockets api open_fds outbox inbox time"
  shows "\<exists>r w'. select_fastest api options w = Some (r, w') \<and> open_fds w' = open_fds w \<and>
     (case r of
        Inl e \<Rightarrow> (\<exists>m. e = PeerDiscoveryError m)
      | Inr peer \<Rightarrow> heard api options w peer \<and> 0 < dp_measured_bytes_per_second peer \<and>
          dp_measured_bytes_per_second peer \<le> real (unat (pd_probe_payload_bytes options)) * 10 ^ 9)"
  using clocked_sockets.select_fastest_outcome [OF assms] .

text \<open>
  An in-memory network on which one peer answers: a descriptor is readable when something
  waits on it, a datagram socket delivers all that waits as one datagram.
\<close>

definition mem_net :: "mem_world socket_api" where
  "mem_net = mem_api
     \<lparr>sys_select := \<lambda>rs ws _ w. (let ready = filter (\<lambda>fd. mw_in w fd \<noteq> []) rs
        in ((int (length ready + length ws), ready, ws), w)),
      sys_recvfrom := \<lambda>fd n w. ((int (min n (length (mw_in w fd))),
        take n (map char_of_byte (mw_in w fd)), Inet 0 0), w\<lparr>mw_in := (mw_in w)(fd := [])\<rparr>)\<rparr>"

lemma mem_net_calls:
  "sys_getaddrinfo mem_net = sys_getaddrinfo mem_api" "sys_getifaddrs mem_net = sys_getifaddrs mem_api"
  "sys_socket mem_net = sys_socket mem_api" "sys_accept mem_net = sys_accept mem_api"
  "sys_close mem_net = sys_close mem_api" "sys_setsockopt mem_net = sys_setsockopt mem_api"
  "sys_connect mem_net = sys_connect mem_api" "sys_bind mem_net = sys_bind mem_api"
  "sys_listen mem_net = sys_listen mem_api" "sys_send mem_net = sys_send mem_api"
  "sys_recv mem_net = sys_recv mem_api" "sys_sendto mem_net = sys_sendto mem_api"
  "sys_getfl mem_net = sys_getfl mem_api" "sys_setfl_nonblock mem_net = sys_setfl_nonblock mem_api"
  "sys_so_error mem_net = sys_so_error mem_api" "sys_now mem_net = sys_now mem_api"
  "sys_inet_pton mem_net = sys_inet_pton mem_api" "sys_inet_ntop mem_net = sys_inet_ntop mem_api"
  "sys_select mem_net rs ws timeout w = (let ready = filter (\<lambda>fd. mw_in w fd \<noteq> []) rs
     in ((int (length ready + length ws), ready, ws), w))"
  "sys_recvfrom mem_net fd n w = ((int (min n (length (mw_in w fd))),
     take n (map char_of_byte (mw_in w fd)), Inet 0 0), w\<lparr>mw_in := (mw_in w)(fd := [])\<rparr>)"
  by (simp_all add: mem_net_def)

interpretation mem_net: clocked_sockets mem_net mw_open mw_out mw_in mw_clock
proof unfold_locales
  show "sys_recv mem_net fd n w = ((r, data), w') \<Longrightarrow> 0 \<le> r \<Longrightarrow>
      length data = nat r \<and> nat r \<le> n \<and> mw_in w fd = data @ mw_in w' fd \<and>
      mw_out w' fd = mw_out w fd \<and> (r = 0 \<longrightarrow> n = 0 \<or> mw_in w fd = [])" for fd n r data and w w' :: mem_world
    unfolding mem_net_calls by (rule mem.recv_law)
qed (simp_all add: mem_net_calls mem.socket_fd mem.accept_fd mem.close_fd mem.other_fd mem.send_law
      mem_clock.now_law mem_clock.recv_time Let_def)

definition desk_message :: string where
  "desk_message = ''HLINK_PEER_V2 47790 47791 1 desk''"

definition desk :: DiscoveredPeer where
  "desk = (peer_at ''127.0.0.1'' 47790 47791 0)\<lparr>dp_display_name := ''desk''\<rparr>"

definition desk_world :: mem_world where
  "desk_world = mem_start\<lparr>mw_in := (\<lambda>_. [])(3 := map byte_of_char desk_message, 4 := [7, 8, 9])\<rparr>"

definition desk_options :: PeerDiscoveryOptions where
  "desk_options = default_discovery_options\<lparr>pd_probe_payload_bytes := 3\<rparr>"

definition desk_heard :: mem_world where
  "desk_heard = desk_world\<lparr>mw_next := 4, mw_open := {0, 1, 2}, mw_in := (\<lambda>_. [])(3 := [], 4 := [7, 8, 9]), mw_clock := 5\<rparr>"

lemmas mem_eval = mem_net_calls mem_api_def mem_fresh_def mem_start_def kInvalidSocket_def Let_def

lemma desk_targets: "enumerate_discovery_targets mem_net w = ([loopback_target], w)"
  by (simp add: enumerate_discovery_targets_def add_target_def loopback_target_def sort_by_def mem_eval)

lemma desk_open:
  "open_targets mem_net desk_options [loopback_target] [] desk_world =
     (Inr [3], desk_world\<lparr>mw_next := 4, mw_open := {0, 1, 2, 3}\<rparr>)"
  by (simp add: ipv4_endpoint_def desk_world_def loopback_target_def mem_eval insert_commute)

lemma desk_loop:
  "reply_loop mem_net [3] 1500000000 [] (desk_world\<lparr>mw_next := 4, mw_open := {0, 1, 2, 3}, mw_clock := 1\<rparr>) =
     Some ([(desk_message, ''127.0.0.1'')], desk_heard\<lparr>mw_open := {0, 1, 2, 3}\<rparr>)"
proof -
  have "length desk_message = 32" "desk_message \<noteq> []" by (simp_all add: desk_message_def)
  moreover have "char_of_byte \<circ> byte_of_char = id" by (rule ext) simp
  ultimately show ?thesis
    by (simp add: reply_loop.simps desk_world_def desk_heard_def discovery_datagram_within_limit_def
        kMaximumAdvertisementBytes_def mem_eval fun_upd_twist)
qed

lemma desk_replies:
  "receive_discovery_replies mem_net desk_options desk_world = Some (Inr [(desk_message, ''127.0.0.1'')], desk_heard)"
proof -
  have 1: "sys_now mem_net (desk_world\<lparr>mw_next := 4, mw_open := {0, 1, 2, 3}\<rparr>) =
      (0, desk_world\<lparr>mw_next := 4, mw_open := {0, 1, 2, 3}, mw_clock := 1\<rparr>)"
    by (simp add: desk_world_def mem_eval)
  have 2: "milliseconds (pd_discovery_timeout desk_options) = 1500000000"
    by (simp add: desk_options_def default_discovery_options_def milliseconds_def)
  have 3: "close_all mem_net [3] (desk_heard\<lparr>mw_open := {0, 1, 2, 3}\<rparr>) = desk_heard"
    by (simp add: close_socket_def desk_heard_def desk_world_def mem_eval insert_Diff_if)
  show ?thesis by (simp add: receive_discovery_replies_def desk_targets desk_open 1 2 desk_loop 3 del: close_all_simps open_targets.simps)
qed

lemma desk_parses: "parse_peer_advertisement desk_message ''127.0.0.1'' = Some desk"
  using parse_advertisement_fields [of desk_message "''47790''" "''47791''" "''1''" "''desk''" "''127.0.0.1''"]
    parse_ipv4_parts [of "''127''" "''0''" "''0''" "''1''"]
  by (simp add: kAdvertisementPrefix_def port_field_def streams_field_def octet_eval
      advertised_peer_def desk_def desk_message_def peer_at_def)

lemma desk_probe:
  "\<exists>w'. probe_tcp_receive mem_net desk_options desk desk_heard = Some (Inr (15 * 10 ^ 8), w')"
  by (simp add: probe_tcp_receive_def desk_heard_def desk_world_def desk_options_def default_discovery_options_def
      desk_def peer_at_def probe_setup_def set_nonblocking_def bindE_def liftE_def returnE_def ipv4_endpoint_def
      milliseconds_def probe_connect_def probe_transfer_def probe_receive_loop.simps wait_for_socket_def
      to_microseconds_def kProbeBuffer_def probe_rate_def mem_eval)

text \<open>The peer that answered is selected, and its probe took two nanoseconds for three bytes.\<close>

theorem select_fastest_returns_witness:
  "\<exists>w'. select_fastest mem_net desk_options desk_world =
       Some (Inr (desk\<lparr>dp_measured_bytes_per_second := 15 * 10 ^ 8\<rparr>), w') \<and> mw_open w' = {0, 1, 2} \<and>
     heard mem_net desk_options desk_world (desk\<lparr>dp_measured_bytes_per_second := 15 * 10 ^ 8\<rparr>)"
proof -
  obtain w' where p: "probe_tcp_receive mem_net desk_options desk desk_heard = Some (Inr (15 * 10 ^ 8), w')"
    using desk_probe by blast
  have "deduplicate_candidates [(desk_message, ''127.0.0.1'')] = [desk]"
    by (simp add: deduplicate_candidates_def desk_parses)
  then have s: "select_fastest mem_net desk_options desk_world =
      Some (Inr (desk\<lparr>dp_measured_bytes_per_second := 15 * 10 ^ 8\<rparr>), w')"
    by (simp add: select_fastest_def discover_and_rank_def bindE_def may_hang_def desk_replies
        rank_candidates_def p select_fastest_peer_def sort_by_def returned_def)
  have "mw_open desk_world = {0, 1, 2}" by (simp add: desk_world_def mem_start_def)
  with s select_fastest_returns [OF mem_net.clocked_sockets_axioms, of desk_options desk_world]
  show ?thesis by auto
qed

text \<open>
  C30. Probing one peer. The probe returns if time passes, with its socket closed on every path, and
  the rate it reports is positive and at most the payload per nanosecond.
\<close>

theorem probe_tcp_receive_bounds:
  assumes "clocked_sockets api open_fds outbox inbox time"
  shows "\<exists>r w'. probe_tcp_receive api options peer w = Some (r, w') \<and> open_fds w' = open_fds w \<and>
     (\<forall>rate. r = Inr rate \<longrightarrow> 0 < rate \<and> rate \<le> real (unat (pd_probe_payload_bytes options)) * 10 ^ 9)"
  using clocked_sockets.probe_tcp_receive_returns [OF assms] .

text \<open>A peer that sends four bytes and closes: the probe reports their rate.\<close>

definition probe_world :: mem_world where
  "probe_world = mem_start\<lparr>mw_in := (\<lambda>_. [1, 2, 3, 4])\<rparr>"

definition probed_peer :: DiscoveredPeer where
  "probed_peer = peer_at ''10.0.0.1'' 1 2 0"

lemma probe_world_run:
  "map_option fst (probe_tcp_receive mem_api default_discovery_options probed_peer probe_world) = Some (Inr (10 ^ 9))"
  by (simp add: probe_tcp_receive_def probe_world_def mem_start_def mem_api_def default_discovery_options_def
      probed_peer_def peer_at_def mem_fresh_def kInvalidSocket_def probe_setup_def set_nonblocking_def bindE_def
      liftE_def returnE_def ipv4_endpoint_def milliseconds_def probe_connect_def Let_def probe_transfer_def
      probe_receive_loop.simps wait_for_socket_def to_microseconds_def kProbeBuffer_def probe_rate_def)

theorem probe_tcp_receive_bounds_witness:
  "\<exists>w'. probe_tcp_receive mem_api default_discovery_options probed_peer probe_world = Some (Inr (10 ^ 9), w') \<and>
     mw_open w' = {0, 1, 2}"
proof -
  obtain r w' where r: "probe_tcp_receive mem_api default_discovery_options probed_peer probe_world = Some (r, w')"
    "mw_open w' = mw_open probe_world"
    using probe_tcp_receive_bounds [OF mem_clock.clocked_sockets_axioms, of default_discovery_options probed_peer probe_world]
    by blast
  with probe_world_run show ?thesis by (simp add: probe_world_def mem_start_def)
qed

text \<open>
  \<^verbatim>\<open>connect_fastest\<close> returns a client transport for the selected peer that is not connected: it
  holds no descriptor, and data cannot be sent through it before \<^verbatim>\<open>connect\<close>.
\<close>

lemma connect_fastest_unconnected:
  assumes "connect_fastest api options endpoint w = Some (Inr t, w')"
  shows "held t = {} \<and> tt_mode t = Client \<and>
    (\<exists>peer. select_fastest api options w = Some (Inr peer, w') \<and>
       te_host (tt_endpoint t) = pe_host (dp_endpoint peer) \<and>
       te_port (tt_endpoint t) = pe_transfer_port (dp_endpoint peer)) \<and>
    (\<exists>e. tcp_send api payload (t, w') = (Inl e, (t, w')))"
proof -
  from assms obtain r where "select_fastest api options w = Some (r, w')"
    "map_sum id (\<lambda>peer. make_tcp_client_transport (selected_tcp_endpoint endpoint peer)) r = Inr t"
    by (auto simp: connect_fastest_def)
  then show ?thesis
    by (cases r) (auto simp: selected_tcp_endpoint_def make_tcp_client_transport_def held_def tcp_send_def)
qed

end
