(* ===== verification/Discovery_Responder.thy ===== *)
theory Discovery_Responder
  imports Discovery_Client
begin

text \<open>
  The answering side of peer discovery: \<^verbatim>\<open>PeerDiscoveryResponder::Impl\<close> in
  \<^verbatim>\<open>src/peer_discovery.cpp\<close>. Starting validates the options, moves the probe port out of the
  transfer range and builds the advertisement; two threads then answer discovery
  datagrams and stream bytes to at most sixteen probe clients. An iteration of a thread's
  loop is one function; threads and calls interleave as a step relation, whose reachable
  states are shown to own exactly the descriptors they account for. That a thread cannot be
  created is not modelled.
\<close>

section \<open>Options and state\<close>

record PeerDiscoveryResponderOptions =
  ro_bind_host :: string
  ro_transfer_port :: u16
  ro_probe_port :: u16
  ro_discovery_port :: u16
  ro_parallel_streams :: u32
  ro_display_name :: string

definition default_responder_options :: PeerDiscoveryResponderOptions where
  "default_responder_options = \<lparr>ro_bind_host = ''0.0.0.0'', ro_transfer_port = 47790, ro_probe_port = 47791,
     ro_discovery_port = 47789, ro_parallel_streams = 1, ro_display_name = ''hyperlink-peer''\<rparr>"

definition kMaximumConcurrentProbeClients :: nat where
  "kMaximumConcurrentProbeClients = 16"

record ActiveProbe =
  ap_socket :: int
  ap_deadline :: int

text \<open>
  A thread is present from its creation until it is joined and owns the sockets captured
  or accepted by it. \<open>ri_terminated\<close> is an exception that left a thread's function:
  \<^verbatim>\<open>std::terminate\<close> ends the process.
\<close>

record Impl =
  ri_options :: PeerDiscoveryResponderOptions
  ri_selected_probe_port :: u16
  ri_advertisement :: string
  ri_running :: bool
  ri_discovery_thread :: "int option"
  ri_probe_thread :: "(int \<times> ActiveProbe list) option"
  ri_terminated :: "exn option"

type_synonym 'w responder = "Impl \<times> 'w"

definition make_responder :: "PeerDiscoveryResponderOptions \<Rightarrow> Impl" where
  "make_responder options = \<lparr>ri_options = options, ri_selected_probe_port = 0, ri_advertisement = [],
     ri_running = False, ri_discovery_thread = None, ri_probe_thread = None, ri_terminated = None\<rparr>"

section \<open>Starting\<close>

text \<open>
  The last transfer port is computed in 64 bits; after the zero checks the sum can neither
  wrap nor underflow.
\<close>

definition last_transfer_port :: "PeerDiscoveryResponderOptions \<Rightarrow> nat" where
  "last_transfer_port options = unat (ro_transfer_port options) + unat (ro_parallel_streams options) - 1"

definition select_probe_port :: "PeerDiscoveryResponderOptions \<Rightarrow> u16 result" where
  "select_probe_port options =
     (let selected = ro_probe_port options; last_port = last_transfer_port options in
      if ro_transfer_port options \<le> selected \<and> unat selected \<le> last_port
      then if last_port < 65535 then Inr (of_nat (last_port + 1))
           else if ro_transfer_port options > 1 then Inr (ro_transfer_port options - 1)
           else Inl (PeerDiscoveryError ''no probe port is available outside the transfer stream range'')
      else Inr selected)"

definition advertisement_for :: "PeerDiscoveryResponderOptions \<Rightarrow> u16 \<Rightarrow> string" where
  "advertisement_for options probe_port =
     kAdvertisementPrefix @ dec_string (unat (ro_transfer_port options)) @ '' '' @
     dec_string (unat probe_port) @ '' '' @ dec_string (unat (ro_parallel_streams options)) @ '' '' @
     ro_display_name options"

definition validate_options :: "PeerDiscoveryResponderOptions \<Rightarrow> unit result" where
  "validate_options options =
     (if ro_transfer_port options = 0 \<or> ro_probe_port options = 0 \<or> ro_discovery_port options = 0 \<or>
         ro_parallel_streams options = 0 \<or> ro_display_name options = []
      then Inl (PeerDiscoveryError ''invalid peer discovery responder options'')
      else if last_transfer_port options > 65535
      then Inl (PeerDiscoveryError ''transfer port plus parallel stream count exceeds 65535'')
      else Inr ())"

definition make_udp_socket :: "'w socket_api \<Rightarrow> PeerDiscoveryResponderOptions \<Rightarrow> ('w, int) eff" where
  "make_udp_socket api options w =
     (case sys_socket api AF_INET SOCK_DGRAM IPPROTO_UDP w of (socket, w1) \<Rightarrow>
      if socket = kInvalidSocket
      then (Inl (PeerDiscoveryError (''discovery responder socket failed: '' @ sys_last_error api w1)), w1)
      else
        let w2 = sys_setsockopt api socket SO_REUSEADDR 1 w1 in
        case ipv4_endpoint api (ro_bind_host options) (ro_discovery_port options) of
          Inl e \<Rightarrow> (Inl e, close_socket api socket w2)
        | Inr endpoint \<Rightarrow>
        case sys_bind api socket endpoint w2 of (bound, w3) \<Rightarrow>
        if bound \<noteq> 0
        then (Inl (PeerDiscoveryError (''discovery responder bind failed: '' @ sys_last_error api w3)),
              close_socket api socket w3)
        else (Inr socket, w3))"

text \<open>The Linux value of the macro.\<close>

definition SOMAXCONN :: int where
  "SOMAXCONN = 4096"

definition make_probe_socket :: "'w socket_api \<Rightarrow> PeerDiscoveryResponderOptions \<Rightarrow> u16 \<Rightarrow> ('w, int) eff" where
  "make_probe_socket api options probe_port w =
     (case sys_socket api AF_INET SOCK_STREAM IPPROTO_TCP w of (socket, w1) \<Rightarrow>
      if socket = kInvalidSocket
      then (Inl (PeerDiscoveryError (''probe responder socket failed: '' @ sys_last_error api w1)), w1)
      else
        let w2 = sys_setsockopt api socket SO_REUSEADDR 1 w1 in
        case ipv4_endpoint api (ro_bind_host options) probe_port of
          Inl e \<Rightarrow> (Inl e, close_socket api socket w2)
        | Inr endpoint \<Rightarrow>
        case sys_bind api socket endpoint w2 of (bound, w3) \<Rightarrow>
        case (if bound \<noteq> 0 then (bound, w3) else sys_listen api socket SOMAXCONN w3) of (listening, w4) \<Rightarrow>
        if listening \<noteq> 0
        then (Inl (PeerDiscoveryError (''probe responder bind failed: '' @ sys_last_error api w4)),
              close_socket api socket w4)
        else case set_nonblocking api socket w4 of
               (Inl e, w5) \<Rightarrow> (Inl e, close_socket api socket w5)
             | (Inr _, w5) \<Rightarrow> (Inr socket, w5))"

section \<open>Stopping\<close>

text \<open>
  Stopping clears the flag and joins: each thread leaves its loop and its function's end
  closes the sockets it owns.
\<close>

definition exit_discovery :: "'w socket_api \<Rightarrow> 'w responder \<Rightarrow> 'w responder" where
  "exit_discovery api s =
     (case s of (r, w) \<Rightarrow> case ri_discovery_thread r of
        None \<Rightarrow> (r, w)
      | Some socket \<Rightarrow> (r\<lparr>ri_discovery_thread := None\<rparr>, close_socket api socket w))"

definition exit_probes :: "'w socket_api \<Rightarrow> 'w responder \<Rightarrow> 'w responder" where
  "exit_probes api s =
     (case s of (r, w) \<Rightarrow> case ri_probe_thread r of
        None \<Rightarrow> (r, w)
      | Some (socket, clients) \<Rightarrow>
          (r\<lparr>ri_probe_thread := None\<rparr>, close_socket api socket (close_all api (map ap_socket clients) w)))"

definition responder_stop :: "'w socket_api \<Rightarrow> 'w responder \<Rightarrow> 'w responder" where
  "responder_stop api s =
     (case s of (r, w) \<Rightarrow> exit_probes api (exit_discovery api (r\<lparr>ri_running := False\<rparr>, w)))"

text \<open>A failed start stops again, so the flag is clear and the object may be started anew.\<close>

definition responder_start :: "'w socket_api \<Rightarrow> ('w responder, unit) eff" where
  "responder_start api s =
     (case s of (r, w) \<Rightarrow>
      if ri_running r then (Inr (), (r, w))
      else
        let options = ri_options r; r0 = r\<lparr>ri_running := True\<rparr> in
        case validate_options options of
          Inl e \<Rightarrow> (Inl e, responder_stop api (r0, w))
        | Inr _ \<Rightarrow>
        let r1 = r0\<lparr>ri_selected_probe_port := ro_probe_port options\<rparr> in
        case select_probe_port options of
          Inl e \<Rightarrow> (Inl e, responder_stop api (r1, w))
        | Inr port \<Rightarrow>
        let r2 = r1\<lparr>ri_selected_probe_port := port, ri_advertisement := advertisement_for options port\<rparr> in
        if length (ri_advertisement r2) > kMaximumAdvertisementBytes
        then (Inl (PeerDiscoveryError ''peer discovery advertisement exceeds 512 bytes''), responder_stop api (r2, w))
        else
        case make_udp_socket api options w of
          (Inl e, w1) \<Rightarrow> (Inl e, responder_stop api (r2, w1))
        | (Inr discovery_socket, w1) \<Rightarrow>
        case make_probe_socket api options port w1 of
          (Inl e, w2) \<Rightarrow> (Inl e, responder_stop api (r2, close_socket api discovery_socket w2))
        | (Inr probe_socket, w2) \<Rightarrow>
            (Inr (), (r2\<lparr>ri_discovery_thread := Some discovery_socket,
                         ri_probe_thread := Some (probe_socket, [])\<rparr>, w2)))"

section \<open>The discovery thread\<close>

definition discovery_iteration :: "'w socket_api \<Rightarrow> string \<Rightarrow> int \<Rightarrow> 'w \<Rightarrow> 'w" where
  "discovery_iteration api advertisement socket w =
     (case sys_select api [socket] [] 100000 w of ((ready, readable, writable), w1) \<Rightarrow>
      if ready \<le> 0 \<or> socket \<notin> set readable then w1
      else case sys_recvfrom api socket kMaximumAdvertisementBytes w1 of ((received, buffer, source), w2) \<Rightarrow>
           if received \<le> 0 \<or> take (nat received) buffer \<noteq> kDiscoveryMessage then w2
           else snd (sys_sendto api socket advertisement source w2))"

section \<open>The probe thread\<close>

definition kProbeBytes :: "byte list" where
  "kProbeBytes = replicate (64 * 1024) 0"

definition send_probe_bytes :: "'w socket_api \<Rightarrow> int \<Rightarrow> 'w \<Rightarrow> bool \<times> 'w" where
  "send_probe_bytes api client w =
     (case sys_send api client kProbeBytes w of (sent, w') \<Rightarrow>
      if sent > 0 then (True, w')
      else if sent = 0 then (False, w')
      else (sys_errno_would_block api w', w'))"

text \<open>
  The accept loop. \<open>rounds\<close> is how often \<^verbatim>\<open>running_\<close> still reads true: another thread may clear
  it at any moment, and the flag returned says whether it was seen cleared. A client
  beyond the limit is closed at once.
\<close>

fun accept_loop ::
  "'w socket_api \<Rightarrow> int \<Rightarrow> nat \<Rightarrow> ActiveProbe list \<Rightarrow> ('w, ActiveProbe list \<times> bool) eff" where
  "accept_loop api socket 0 clients w = (Inr (clients, False), w)"
| "accept_loop api socket (Suc rounds) clients w =
     (case sys_accept api socket w of (client, w1) \<Rightarrow>
      if client = kInvalidSocket then (Inr (clients, True), w1)
      else if length clients \<ge> kMaximumConcurrentProbeClients
      then accept_loop api socket rounds clients (close_socket api client w1)
      else case set_nonblocking api client w1 of
             (Inl e, w2) \<Rightarrow> (Inl e, close_socket api client w2)
           | (Inr _, w2) \<Rightarrow>
               (case sys_now api w2 of (now, w3) \<Rightarrow>
                  accept_loop api socket rounds
                    (clients @ [\<lparr>ap_socket = client, ap_deadline = now + 1000000000\<rparr>]) w3))"

text \<open>
  \<^verbatim>\<open>erase(remove_if(...))\<close> on a vector of handles: a kept element is moved into the first
  hole, which closes the handle that was there and leaves its own slot empty; what is
  left in the holes is closed by \<^verbatim>\<open>erase\<close>.
\<close>

fun erase_if ::
  "'w socket_api \<Rightarrow> (ActiveProbe \<Rightarrow> 'w \<Rightarrow> bool \<times> 'w) \<Rightarrow> ActiveProbe list \<Rightarrow> ActiveProbe list \<Rightarrow> int list \<Rightarrow> 'w \<Rightarrow>
   ActiveProbe list \<times> 'w" where
  "erase_if api p [] kept holes w = (kept, close_all api holes w)"
| "erase_if api p (c # cs) kept holes w =
     (case p c w of (remove, w1) \<Rightarrow>
      if remove then erase_if api p cs kept (holes @ [ap_socket c]) w1
      else case holes of
             [] \<Rightarrow> erase_if api p cs (kept @ [c]) [] w1
           | h # hs \<Rightarrow> erase_if api p cs (kept @ [c]) (hs @ [kInvalidSocket]) (close_socket api h w1))"

definition expired :: "int \<Rightarrow> ActiveProbe \<Rightarrow> 'w \<Rightarrow> bool \<times> 'w" where
  "expired now client w = (ap_deadline client \<le> now, w)"

definition finished :: "'w socket_api \<Rightarrow> int list \<Rightarrow> ActiveProbe \<Rightarrow> 'w \<Rightarrow> bool \<times> 'w" where
  "finished api writable client w =
     (if ap_socket client \<in> set writable
      then case send_probe_bytes api (ap_socket client) w of (keep, w') \<Rightarrow> (\<not> keep, w')
      else (False, w))"

definition probe_iteration ::
  "'w socket_api \<Rightarrow> int \<Rightarrow> nat \<Rightarrow> ActiveProbe list \<Rightarrow> ('w, ActiveProbe list \<times> bool) eff" where
  "probe_iteration api socket rounds clients w =
     (case sys_select api [socket] (map ap_socket clients) 100000 w of ((ready, readable, writable), w1) \<Rightarrow>
      case (if ready > 0 \<and> socket \<in> set readable then accept_loop api socket rounds clients w1
            else (Inr (clients, True), w1)) of
        (Inl e, w2) \<Rightarrow> (Inl e, w2)
      | (Inr (clients', running), w2) \<Rightarrow>
          (case sys_now api w2 of (now, w3) \<Rightarrow>
           case erase_if api (expired now) clients' [] [] w3 of (alive, w4) \<Rightarrow>
           if ready > 0
           then case erase_if api (finished api writable) alive [] [] w4 of
                  (active, w5) \<Rightarrow> (Inr (active, running), w5)
           else (Inr (alive, running), w4)))"

section \<open>Interleaving\<close>

text \<open>
  The calls of the owner and the iterations of the two threads, in any order. If the probe
  thread saw the flag cleared, it was cleared: a stop is under way, and the owner does not
  start the responder before that stop has joined the threads. An exception that
  leaves a thread ends the process: no step follows.
\<close>

inductive responder_step :: "'w socket_api \<Rightarrow> 'w responder \<Rightarrow> 'w responder \<Rightarrow> bool" for api where
  start: "ri_terminated r = None \<Longrightarrow>
    ri_running r \<or> ri_discovery_thread r = None \<and> ri_probe_thread r = None \<Longrightarrow>
    responder_start api (r, w) = (result, s') \<Longrightarrow> responder_step api (r, w) s'"
| stop: "ri_terminated r = None \<Longrightarrow> responder_step api (r, w) (responder_stop api (r, w))"
| discovery: "ri_terminated r = None \<Longrightarrow> ri_running r \<Longrightarrow> ri_discovery_thread r = Some socket \<Longrightarrow>
    responder_step api (r, w) (r, discovery_iteration api (ri_advertisement r) socket w)"
| probes: "ri_terminated r = None \<Longrightarrow> ri_running r \<Longrightarrow> ri_probe_thread r = Some (socket, clients) \<Longrightarrow>
    probe_iteration api socket rounds clients w = (Inr (clients', running), w') \<Longrightarrow>
    responder_step api (r, w) (r\<lparr>ri_probe_thread := Some (socket, clients'), ri_running := running\<rparr>, w')"
| crash: "ri_terminated r = None \<Longrightarrow> ri_running r \<Longrightarrow> ri_probe_thread r = Some (socket, clients) \<Longrightarrow>
    probe_iteration api socket rounds clients w = (Inl e, w') \<Longrightarrow>
    responder_step api (r, w) (r\<lparr>ri_terminated := Some e\<rparr>, w')"

inductive reachable_responder :: "'w socket_api \<Rightarrow> PeerDiscoveryResponderOptions \<Rightarrow> 'w \<Rightarrow> 'w responder \<Rightarrow> bool"
  for api options w0 where
  new: "reachable_responder api options w0 (make_responder options, w0)"
| step: "reachable_responder api options w0 s \<Longrightarrow> responder_step api s s' \<Longrightarrow>
    reachable_responder api options w0 s'"

section \<open>Ownership of descriptors\<close>

definition owned :: "Impl \<Rightarrow> int list" where
  "owned r =
     (case ri_discovery_thread r of None \<Rightarrow> [] | Some socket \<Rightarrow> [socket]) @
     (case ri_probe_thread r of None \<Rightarrow> [] | Some (socket, clients) \<Rightarrow> socket # map ap_socket clients)"

lemma shrink_sets:
  assumes "A \<subseteq> B" "P \<inter> B = {}" "(P \<union> B) \<inter> F = {}" "x \<notin> B"
  shows "P \<inter> A = {}" "(P \<union> A) \<inter> F = {}" "x \<notin> A" "F \<union> (P \<union> B) - (B - A) = F \<union> (P \<union> A)"
  using assms by auto

context descriptors
begin

text \<open>The listed descriptors are distinct, open and new; everything else open was open before.\<close>

definition owns :: "int set \<Rightarrow> int list \<Rightarrow> 'w \<Rightarrow> bool" where
  "owns before sockets w \<longleftrightarrow> distinct sockets \<and> opened before sockets w"

lemma owns_frame: "owns before sockets w \<Longrightarrow> open_fds w' = open_fds w \<Longrightarrow> owns before sockets w'"
  by (simp add: owns_def opened_def)

lemma owns_add:
  "owns before sockets w \<Longrightarrow> fd \<noteq> -1 \<Longrightarrow> fd \<notin> open_fds w \<Longrightarrow> open_fds w' = insert fd (open_fds w) \<Longrightarrow>
     owns before (sockets @ [fd]) w'"
  by (auto simp: owns_def opened_def)

lemma close_fresh:
  "fd \<notin> open_fds w \<Longrightarrow> fd \<noteq> -1 \<Longrightarrow> open_fds w' = insert fd (open_fds w) \<Longrightarrow> open_fds (close_socket api fd w') = open_fds w"
  by (auto simp: close_socket_fds kInvalidSocket_def)

text \<open>A function that returns a socket: a new one, or nothing new is open.\<close>

definition opens :: "int result \<Rightarrow> 'w \<Rightarrow> 'w \<Rightarrow> bool" where
  "opens r w w' \<longleftrightarrow>
     (case r of Inl _ \<Rightarrow> open_fds w' = open_fds w
      | Inr fd \<Rightarrow> fd \<noteq> -1 \<and> fd \<notin> open_fds w \<and> open_fds w' = insert fd (open_fds w))"

lemma make_udp_socket_opens:
  assumes "make_udp_socket api options w = (r, w')"
  shows "opens r w w'"
proof -
  obtain fd w1 where s: "sys_socket api AF_INET SOCK_DGRAM IPPROTO_UDP w = (fd, w1)" by fastforce
  show ?thesis
  proof (cases "fd = -1")
    case True
    with assms s socket_fd [OF s] show ?thesis by (auto simp: make_udp_socket_def kInvalidSocket_def opens_def)
  next
    case False
    with socket_fd [OF s] have n: "fd \<notin> open_fds w" "open_fds w1 = insert fd (open_fds w)" by auto
    let ?w2 = "sys_setsockopt api fd SO_REUSEADDR 1 w1"
    have "open_fds (snd (sys_bind api fd a ?w2)) = insert fd (open_fds w)" for a using n by (simp add: other_fd)
    with n False assms s close_fresh [OF n(1) False, of ?w2] close_fresh [OF n(1) False]
    show ?thesis
      by (auto simp: make_udp_socket_def kInvalidSocket_def opens_def Let_def other_fd case_prod_unfold
          split: if_splits sum.splits)
  qed
qed

lemma make_probe_socket_opens:
  assumes "make_probe_socket api options port w = (r, w')"
  shows "opens r w w'"
proof -
  obtain fd w1 where s: "sys_socket api AF_INET SOCK_STREAM IPPROTO_TCP w = (fd, w1)" by fastforce
  show ?thesis
  proof (cases "fd = -1")
    case True
    with assms s socket_fd [OF s] show ?thesis by (auto simp: make_probe_socket_def kInvalidSocket_def opens_def)
  next
    case False
    with socket_fd [OF s] have n: "fd \<notin> open_fds w" "open_fds w1 = insert fd (open_fds w)" by auto
    let ?w2 = "sys_setsockopt api fd SO_REUSEADDR 1 w1"
    have w2: "open_fds ?w2 = insert fd (open_fds w)" using n by (simp add: other_fd)
    show ?thesis
    proof (cases "ipv4_endpoint api (ro_bind_host options) port")
      case (Inl e)
      with assms s False close_fresh [OF n(1) False w2] show ?thesis
        by (auto simp: make_probe_socket_def kInvalidSocket_def opens_def Let_def)
    next
      case (Inr endpoint)
      obtain b w3 where b: "sys_bind api fd endpoint ?w2 = (b, w3)" by fastforce
      obtain l w4 where l: "(if b \<noteq> 0 then (b, w3) else sys_listen api fd SOMAXCONN w3) = (l, w4)" by fastforce
      have w4: "open_fds w4 = insert fd (open_fds w)"
        using w2 other_fd_eq(3) [OF b] l by (auto split: if_splits dest: other_fd_eq(4))
      obtain u w5 where u: "set_nonblocking api fd w4 = (u, w5)" by fastforce
      have w5: "open_fds w5 = insert fd (open_fds w)" using w4 set_nonblocking_fds [OF u] by simp
      show ?thesis
        using assms s False Inr b l u w5 close_fresh [OF n(1) False w4] close_fresh [OF n(1) False w5] n(1)
        by (cases u) (auto simp: make_probe_socket_def kInvalidSocket_def opens_def Let_def split: if_splits)
    qed
  qed
qed

lemma erase_if_spec:
  assumes "erase_if api p cs kept holes w = (kept', w')"
    and "\<And>c w. open_fds (snd (p c w)) = open_fds w"
    and "distinct (map ap_socket cs)" and "-1 \<notin> ap_socket ` set cs" and "set holes \<inter> ap_socket ` set cs = {}"
  shows "\<exists>ks. kept' = kept @ ks \<and> set ks \<subseteq> set cs \<and> distinct (map ap_socket ks) \<and> length ks \<le> length cs \<and>
    open_fds w' = open_fds w - (set holes - {-1}) - (ap_socket ` set cs - ap_socket ` set ks)"
  using assms
proof (induction cs arbitrary: kept holes w)
  case Nil
  have "open_fds (close_all api holes w) = open_fds w - (set holes - {-1})" for holes w
    by (induction holes arbitrary: w) (auto simp: close_socket_fds kInvalidSocket_def)
  with Nil show ?case by auto
next
  case (Cons c cs)
  obtain remove w1 where p: "p c w = (remove, w1)" by fastforce
  have w1: "open_fds w1 = open_fds w" using Cons.prems(2) [of c w] p by simp
  have rest: "distinct (map ap_socket cs)" "-1 \<notin> ap_socket ` set cs" "set holes \<inter> ap_socket ` set cs = {}"
    "ap_socket c \<notin> ap_socket ` set cs" "ap_socket c \<noteq> -1" "ap_socket c \<notin> set holes"
    using Cons.prems by auto
  show ?case
  proof (cases remove)
    case True
    with Cons.prems(1) p have e: "erase_if api p cs kept (holes @ [ap_socket c]) w1 = (kept', w')" by simp
    from Cons.IH [OF e Cons.prems(2) rest(1,2)] rest
    obtain ks where ks: "kept' = kept @ ks" "set ks \<subseteq> set cs" "distinct (map ap_socket ks)" "length ks \<le> length cs"
      "open_fds w' = open_fds w1 - (set (holes @ [ap_socket c]) - {-1}) - (ap_socket ` set cs - ap_socket ` set ks)"
      by auto
    moreover have "ap_socket c \<notin> ap_socket ` set ks" using rest ks(2) by auto
    moreover have "F - (insert c H - {-1}) - (B - A) = F - (H - {-1}) - (insert c B - A)"
      if "c \<notin> A" "c \<noteq> -1" for c :: int and A B F H using that by blast
    ultimately show ?thesis using w1 rest(5) by (intro exI [of _ ks]) (simp add: subset_insertI2)
  next
    case False
    define holes' where "holes' = (case holes of [] \<Rightarrow> [] | h # hs \<Rightarrow> hs @ [kInvalidSocket])"
    define w2 where "w2 = (case holes of [] \<Rightarrow> w1 | h # hs \<Rightarrow> close_socket api h w1)"
    have e: "erase_if api p cs (kept @ [c]) holes' w2 = (kept', w')"
      using Cons.prems(1) p False by (auto simp: holes'_def w2_def split: list.splits)
    have h': "set holes' \<inter> ap_socket ` set cs = {}" using rest(2,3)
      by (cases holes) (simp_all add: holes'_def kInvalidSocket_def)
    have w2: "open_fds w2 - (set holes' - {-1}) = open_fds w - (set holes - {-1})"
      using w1 by (auto simp: holes'_def w2_def close_socket_fds kInvalidSocket_def split: list.splits)
    from Cons.IH [OF e Cons.prems(2) rest(1,2) h'] obtain ks where ks: "kept' = (kept @ [c]) @ ks"
      "set ks \<subseteq> set cs" "distinct (map ap_socket ks)" "length ks \<le> length cs"
      "open_fds w' = open_fds w2 - (set holes' - {-1}) - (ap_socket ` set cs - ap_socket ` set ks)" by blast
    moreover have "ap_socket c \<notin> ap_socket ` set ks" using rest ks(2) by auto
    ultimately show ?thesis using rest(4) unfolding w2 by (intro exI [of _ "c # ks"]) auto
  qed
qed

lemma erase_if_owns:
  assumes "erase_if api p cs [] [] w = (ks, w')" and "\<And>c w. open_fds (snd (p c w)) = open_fds w"
    and "owns before (pre @ map ap_socket cs) w"
  shows "owns before (pre @ map ap_socket ks) w' \<and> length ks \<le> length cs"
proof -
  from assms(3) have "distinct (map ap_socket cs)" "-1 \<notin> ap_socket ` set cs"
    by (simp_all add: owns_def opened_def)
  from erase_if_spec [OF assms(1,2) this] have ks: "set ks \<subseteq> set cs" "distinct (map ap_socket ks)" "length ks \<le> length cs"
    "open_fds w' = open_fds w - (ap_socket ` set cs - ap_socket ` set ks)" by simp_all
  let ?A = "ap_socket ` set ks" and ?B = "ap_socket ` set cs"
  have sub: "?A \<subseteq> ?B" using ks(1) by blast
  have o: "set pre \<inter> ?B = {}" "(set pre \<union> ?B) \<inter> before = {}" "-1 \<notin> ?B" "-1 \<notin> set pre" "distinct pre"
    "open_fds w = before \<union> (set pre \<union> ?B)"
    using assms(3) by (simp_all add: owns_def opened_def)
  note small = shrink_sets [OF sub o(1-3)]
  from small(4) have "open_fds w' = before \<union> (set pre \<union> ?A)" by (simp only: ks(4) o(6))
  with small(1-3) show ?thesis using ks(2,3) o(4,5) by (simp add: owns_def opened_def)
qed

lemma accept_loop_owns:
  assumes "accept_loop api socket rounds clients w = (Inr (clients', running), w')"
    and "owns before (pre @ map ap_socket clients) w" and "length clients \<le> 16"
  shows "owns before (pre @ map ap_socket clients') w' \<and> length clients' \<le> 16"
  using assms
proof (induction rounds arbitrary: clients w)
  case (Suc rounds)
  obtain fd w1 where a: "sys_accept api socket w = (fd, w1)" by fastforce
  show ?case
  proof (cases "fd = -1")
    case True
    with Suc.prems a accept_fd [OF a] show ?thesis by (auto simp: kInvalidSocket_def intro: owns_frame)
  next
    case False
    with accept_fd [OF a] have n: "fd \<notin> open_fds w" "open_fds w1 = insert fd (open_fds w)" by auto
    show ?thesis
    proof (cases "length clients \<ge> 16")
      case True
      have "owns before (pre @ map ap_socket clients) (close_socket api fd w1)"
        using owns_frame [OF Suc.prems(2)] close_fresh [OF n(1) False n(2)] by blast
      with Suc a False True show ?thesis
        by (auto simp: kInvalidSocket_def kMaximumConcurrentProbeClients_def)
    next
      case less: False
      obtain u w2 where u: "set_nonblocking api fd w1 = (u, w2)" by fastforce
      obtain t w3 where t: "sys_now api w2 = (t, w3)" by fastforce
      let ?clients = "clients @ [\<lparr>ap_socket = fd, ap_deadline = t + 1000000000\<rparr>]"
      have "open_fds w3 = insert fd (open_fds w)"
        using n set_nonblocking_fds [OF u] other_fd_eq(13) [OF t] by simp
      from owns_add [OF Suc.prems(2) False n(1) this] have "owns before (pre @ map ap_socket ?clients) w3" by simp
      moreover from Suc.prems(1) a False less u t have "accept_loop api socket rounds ?clients w3 = (Inr (clients', running), w')"
        by (cases u) (auto simp: kInvalidSocket_def kMaximumConcurrentProbeClients_def)
      ultimately show ?thesis using Suc.IH [of ?clients w3] less by simp
    qed
  qed
qed auto

lemma expired_fds: "open_fds (snd (expired now c w)) = open_fds w"
  by (simp add: expired_def)

lemma finished_fds: "open_fds (snd (finished api writable c w)) = open_fds w"
  by (auto simp: finished_def send_probe_bytes_def case_prod_unfold other_fd)

lemma probe_iteration_owns:
  assumes "probe_iteration api socket rounds clients w = (Inr (clients', running), w')"
    and "owns before (pre @ map ap_socket clients) w" and "length clients \<le> 16"
  shows "owns before (pre @ map ap_socket clients') w' \<and> length clients' \<le> 16"
proof -
  obtain ready readable writable w1
    where s: "sys_select api [socket] (map ap_socket clients) 100000 w = ((ready, readable, writable), w1)"
    by (metis surj_pair)
  let ?accept = "if ready > 0 \<and> socket \<in> set readable then accept_loop api socket rounds clients w1
            else (Inr (clients, True), w1)"
  obtain cs run w2 where a: "?accept = (Inr (cs, run), w2)"
    using assms(1) s by (auto simp: probe_iteration_def split: prod.splits sum.splits)
  have w1: "owns before (pre @ map ap_socket clients) w1" by (rule owns_frame [OF assms(2) other_fd_eq(9) [OF s]])
  have cs: "owns before (pre @ map ap_socket cs) w2 \<and> length cs \<le> 16"
    using a accept_loop_owns [OF _ w1 assms(3)] w1 assms(3) by (auto split: if_splits)
  obtain now w3 where n: "sys_now api w2 = (now, w3)" by fastforce
  obtain alive w4 where e: "erase_if api (expired now) cs [] [] w3 = (alive, w4)" by fastforce
  have al: "owns before (pre @ map ap_socket alive) w4 \<and> length alive \<le> length cs"
    using erase_if_owns [OF e expired_fds] owns_frame [OF conjunct1 [OF cs] other_fd_eq(13) [OF n]] by blast
  obtain active w5 where f: "erase_if api (finished api writable) alive [] [] w4 = (active, w5)" by fastforce
  have "owns before (pre @ map ap_socket active) w5 \<and> length active \<le> length alive"
    using erase_if_owns [OF f finished_fds] al by blast
  with assms(1) s a n e f al cs show ?thesis by (auto simp: probe_iteration_def split: if_splits)
qed

lemma discovery_iteration_fds: "open_fds (discovery_iteration api text socket w) = open_fds w"
  by (auto simp: discovery_iteration_def case_prod_unfold other_fd)

text \<open>The invariant of the responder.\<close>

definition responder_inv :: "int set \<Rightarrow> 'w responder \<Rightarrow> bool" where
  "responder_inv before s \<longleftrightarrow>
     (case s of (r, w) \<Rightarrow> ri_terminated r = None \<longrightarrow>
        owns before (owned r) w \<and>
        (\<forall>socket clients. ri_probe_thread r = Some (socket, clients) \<longrightarrow> length clients \<le> 16) \<and>
        (ri_running r \<longrightarrow> ri_discovery_thread r \<noteq> None \<and> ri_probe_thread r \<noteq> None))"

lemma responder_stop_eq:
  "responder_stop api (r, w) =
     (r\<lparr>ri_running := False, ri_discovery_thread := None, ri_probe_thread := None\<rparr>, snd (responder_stop api (r, w)))"
  by (auto simp: responder_stop_def exit_probes_def exit_discovery_def split: option.splits)

lemma responder_stop_closes:
  "-1 \<notin> set (owned r) \<Longrightarrow> open_fds (snd (responder_stop api (r, w))) = open_fds w - set (owned r)"
  by (auto simp: owned_def responder_stop_def exit_probes_def exit_discovery_def
      close_socket_fds close_all_fds kInvalidSocket_def simp del: set_map split: option.splits)

lemma responder_stop_fds: "owns before (owned r) w \<Longrightarrow> open_fds (snd (responder_stop api (r, w))) = before"
  using responder_stop_closes [of r w] by (auto simp: owns_def opened_def)

lemma owned_none: "ri_discovery_thread r = None \<Longrightarrow> ri_probe_thread r = None \<Longrightarrow> owned r = []"
  by (simp add: owned_def)

lemma responder_stop_inv:
  assumes "owns before (owned r) w"
  shows "responder_inv before (responder_stop api (r, w))"
proof -
  have "open_fds (snd (responder_stop api (r, w))) = before" using assms by (rule responder_stop_fds)
  then show ?thesis
    by (subst responder_stop_eq) (simp add: responder_inv_def owned_def owns_def opened_def)
qed

lemma responder_start_inv:
  assumes "responder_start api (r, w) = (result, s')" and "responder_inv before (r, w)"
    and "ri_terminated r = None" and "ri_running r \<or> ri_discovery_thread r = None \<and> ri_probe_thread r = None"
  shows "responder_inv before s'"
proof (cases "ri_running r")
  case True
  with assms show ?thesis by (simp add: responder_start_def)
next
  case False
  with assms have none: "ri_discovery_thread r = None" "ri_probe_thread r = None" by auto
  then have bef: "open_fds w = before" using assms(2,3)
    by (simp add: responder_inv_def owned_none owns_def opened_def)
  have stop: "responder_inv before (responder_stop api (r', w'))"
    if "ri_discovery_thread r' = None" "ri_probe_thread r' = None" "open_fds w' = before" for r' w'
    using that by (intro responder_stop_inv) (simp add: owned_none owns_def opened_def)
  obtain d w1 where d: "make_udp_socket api (ri_options r) w = (d, w1)" by fastforce
  have od: "opens d w w1" using make_udp_socket_opens [OF d] .
  show ?thesis
  proof (cases d)
    case (Inl e)
    with od have "open_fds w1 = before" by (simp add: opens_def bef)
    with assms(1) False none d Inl stop bef show ?thesis
      by (auto simp: responder_start_def Let_def split: sum.splits if_splits)
  next
    case (Inr disc)
    with od have o1: "disc \<noteq> -1" "disc \<notin> before" "open_fds w1 = insert disc before" by (auto simp: opens_def bef)
    have "responder_inv before s'"
      if p: "make_probe_socket api (ri_options r) port w1 = (q, w2)"
        and s': "s' = (case q of
           Inl e \<Rightarrow> responder_stop api (r2, close_socket api disc w2)
         | Inr probe_socket \<Rightarrow> (r2\<lparr>ri_discovery_thread := Some disc, ri_probe_thread := Some (probe_socket, [])\<rparr>, w2))"
        and r2: "ri_discovery_thread r2 = None" "ri_probe_thread r2 = None" "ri_terminated r2 = None"
      for port q w2 r2
    proof (cases q)
      case (Inl e)
      then have "open_fds w2 = insert disc before"
        using make_probe_socket_opens [OF p] o1 by (simp add: opens_def)
      then have "open_fds (close_socket api disc w2) = before"
        using o1 by (auto simp: close_socket_fds kInvalidSocket_def)
      with stop r2 s' Inl show ?thesis by simp
    next
      case (Inr probe_socket)
      with make_probe_socket_opens [OF p] o1
      have "probe_socket \<noteq> -1" "probe_socket \<notin> before" "probe_socket \<noteq> disc"
        "open_fds w2 = insert probe_socket (insert disc before)" by (auto simp: opens_def)
      with o1 s' Inr r2 show ?thesis by (auto simp: responder_inv_def owned_def owns_def opened_def)
    qed
    with assms(1,3) False none d Inr stop bef show ?thesis
      by (fastforce simp: responder_start_def Let_def split: sum.splits if_splits prod.splits)
  qed
qed

lemma responder_step_inv:
  assumes "responder_step api s s'" and "responder_inv before s"
  shows "responder_inv before s'"
  using assms
proof (cases rule: responder_step.cases)
  case (start r w result)
  with responder_start_inv assms(2) show ?thesis by blast
next
  case (stop r w)
  with assms(2) responder_stop_inv show ?thesis by (simp add: responder_inv_def)
next
  case (discovery r socket w)
  with assms(2) owns_frame discovery_iteration_fds show ?thesis by (auto simp: responder_inv_def)
next
  case (probes r socket clients rounds w clients' running w')
  obtain disc where disc: "ri_discovery_thread r = Some disc" using probes assms(2) by (auto simp: responder_inv_def)
  have "owns before ([disc, socket] @ map ap_socket clients) w" "length clients \<le> 16"
    using probes assms(2) disc by (auto simp: responder_inv_def owned_def)
  from probe_iteration_owns [OF probes(6) this] disc show ?thesis
    using probes by (simp add: responder_inv_def owned_def)
next
  case (crash r socket clients rounds w e w')
  then show ?thesis by (simp add: responder_inv_def)
qed

lemma reachable_responder_inv:
  "reachable_responder api options w0 s \<Longrightarrow> responder_inv (open_fds w0) s"
proof (induction rule: reachable_responder.induct)
  case new
  then show ?case by (simp add: responder_inv_def make_responder_def owned_def owns_def opened_def)
next
  case (step s s')
  then show ?case using responder_step_inv by blast
qed

end

section \<open>The probe port and the advertisement\<close>

definition outside_transfer_range :: "PeerDiscoveryResponderOptions \<Rightarrow> u16 \<Rightarrow> bool" where
  "outside_transfer_range options port \<longleftrightarrow>
     unat port < unat (ro_transfer_port options) \<or> last_transfer_port options < unat port"

lemma select_probe_port_spec:
  assumes "validate_options options = Inr ()"
  shows "case select_probe_port options of
      Inl _ \<Rightarrow> unat (ro_transfer_port options) = 1 \<and> unat (ro_parallel_streams options) = 65535
    | Inr port \<Rightarrow> port \<noteq> 0 \<and> outside_transfer_range options port \<and>
        (outside_transfer_range options (ro_probe_port options) \<longrightarrow> port = ro_probe_port options)"
proof -
  from assms have v: "ro_transfer_port options \<noteq> 0" "ro_probe_port options \<noteq> 0" "ro_parallel_streams options \<noteq> 0"
    and l: "last_transfer_port options \<le> 65535"
    by (auto simp: validate_options_def split: if_splits)
  have pos: "0 < unat (ro_transfer_port options)" "0 < unat (ro_parallel_streams options)"
    using v by (simp_all add: unat_gt_0)
  have up: "of_nat (last_transfer_port options + 1) \<noteq> (0 :: u16) \<and>
      outside_transfer_range options (of_nat (last_transfer_port options + 1))" if "last_transfer_port options < 65535"
  proof -
    have "unat (of_nat (last_transfer_port options + 1) :: u16) = last_transfer_port options + 1"
      using that by (intro unat_of_nat_small) simp
    then show ?thesis by (auto simp: outside_transfer_range_def)
  qed
  have down: "ro_transfer_port options - 1 \<noteq> 0 \<and> outside_transfer_range options (ro_transfer_port options - 1)"
    if "1 < ro_transfer_port options"
  proof -
    have "unat (ro_transfer_port options - 1) = unat (ro_transfer_port options) - 1"
      using v(1) by (simp add: unat_minus_one)
    with that pos(1) show ?thesis by (auto simp: outside_transfer_range_def word_less_nat_alt)
  qed
  have one: "unat (ro_transfer_port options) = 1" if "\<not> 1 < ro_transfer_port options"
    using that pos(1) by (simp add: word_less_nat_alt)
  show ?thesis
    using v(2) l up down one pos
    by (auto simp: select_probe_port_def Let_def outside_transfer_range_def word_le_nat_alt last_transfer_port_def)
qed

text \<open>
  C33. The probe port. With options that pass validation the responder always finds a probe port,
  except in the one case where the transfer streams occupy all ports from 1 to 65535; the
  port is never zero and never one of the transfer streams' ports, and a requested port
  that is already outside that range is kept.
\<close>

theorem select_probe_port_outside:
  assumes "validate_options options = Inr ()"
  shows "case select_probe_port options of
      Inl _ \<Rightarrow> unat (ro_transfer_port options) = 1 \<and> unat (ro_parallel_streams options) = 65535
    | Inr port \<Rightarrow> port \<noteq> 0 \<and> outside_transfer_range options port \<and>
        (outside_transfer_range options (ro_probe_port options) \<longrightarrow> port = ro_probe_port options)"
  using select_probe_port_spec [OF assms] .

definition readme_options :: PeerDiscoveryResponderOptions where
  "readme_options = default_responder_options\<lparr>ro_parallel_streams := 8\<rparr>"

lemma readme_options_valid [simp]: "validate_options readme_options = Inr ()"
  by (simp add: validate_options_def readme_options_def default_responder_options_def last_transfer_port_def)

text \<open>The README's example: port 47790 with eight streams moves the probe port 47791 to 47798.\<close>

lemma readme_probe_port [simp]: "select_probe_port readme_options = Inr 47798"
  by (simp add: select_probe_port_def readme_options_def default_responder_options_def last_transfer_port_def Let_def)

theorem select_probe_port_outside_witness:
  "select_probe_port readme_options = Inr 47798 \<and> outside_transfer_range readme_options 47798 \<and>
   \<not> outside_transfer_range readme_options (ro_probe_port readme_options)"
  using select_probe_port_outside [OF readme_options_valid]
  by (simp add: outside_transfer_range_def last_transfer_port_def)
    (simp add: readme_options_def default_responder_options_def)

lemma responder_start_SomeE:
  assumes "responder_start api (r, w) = (Inr (), (r', w'))" and "\<not> ri_running r"
  obtains port where "validate_options (ri_options r) = Inr ()" "select_probe_port (ri_options r) = Inr port"
    "ri_selected_probe_port r' = port" "ri_advertisement r' = advertisement_for (ri_options r) port"
    "length (ri_advertisement r') \<le> 512" "ri_running r'"
  using assms
  by (auto simp: responder_start_def Let_def kMaximumAdvertisementBytes_def
      split: sum.splits if_splits prod.splits)

text \<open>
  C32. Advertisement round trip. When a responder starts, the datagram it will send is accepted by
  every receiver's parser, from any IPv4 source address, and yields exactly the transfer
  port, stream count and name of the options, and the probe port on which the responder
  listens; that port is outside the transfer range, whose last port is at most 65535.
\<close>

theorem responder_advertisement_parses:
  assumes "responder_start api (r, w) = (Inr (), (r', w'))" and "\<not> ri_running r"
    and "parse_ipv4 source \<noteq> None"
  shows "parse_peer_advertisement (ri_advertisement r') source = Some
      \<lparr>dp_endpoint = \<lparr>pe_host = source, pe_transfer_port = ro_transfer_port (ri_options r),
         pe_probe_port = ri_selected_probe_port r', pe_parallel_streams = ro_parallel_streams (ri_options r)\<rparr>,
       dp_display_name = ro_display_name (ri_options r), dp_source_address = source,
       dp_measured_bytes_per_second = 0\<rparr> \<and>
    outside_transfer_range (ri_options r) (ri_selected_probe_port r') \<and>
    last_transfer_port (ri_options r) \<le> 65535"
proof -
  let ?o = "ri_options r"
  from responder_start_SomeE [OF assms(1,2)] obtain port where p: "validate_options ?o = Inr ()"
    "select_probe_port ?o = Inr port" "ri_selected_probe_port r' = port"
    "ri_advertisement r' = advertisement_for ?o port" "length (ri_advertisement r') \<le> 512" by blast
  from p(1) have v: "ro_transfer_port ?o \<noteq> 0" "ro_parallel_streams ?o \<noteq> 0" "ro_display_name ?o \<noteq> []"
    "last_transfer_port ?o \<le> 65535"
    by (auto simp: validate_options_def split: if_splits)
  from select_probe_port_spec [OF p(1)] p(2) have "port \<noteq> 0" "outside_transfer_range ?o port" by auto
  moreover have "advertises (ri_advertisement r') source
      \<lparr>dp_endpoint = \<lparr>pe_host = source, pe_transfer_port = ro_transfer_port ?o,
         pe_probe_port = port, pe_parallel_streams = ro_parallel_streams ?o\<rparr>,
       dp_display_name = ro_display_name ?o, dp_source_address = source, dp_measured_bytes_per_second = 0\<rparr>"
    unfolding advertises_def using v \<open>port \<noteq> 0\<close> assms(3) p(4,5)
    by (fastforce simp: advertisement_for_def intro!: is_decimal_dec_string dec_value_dec_string)
  ultimately show ?thesis using advertises_parse v(4) p(3) by auto
qed

definition readme_responder :: "(unit result \<times> Impl \<times> mem_world)" where
  "readme_responder = responder_start mem_api (make_responder readme_options, mem_start)"

lemma readme_responder_run:
  "\<exists>r w. readme_responder = (Inr (), (r, w)) \<and> ri_selected_probe_port r = 47798 \<and>
     ri_running r \<and> ri_terminated r = None \<and> ri_discovery_thread r = Some 3 \<and> ri_probe_thread r = Some (4, []) \<and>
     mw_next w = 5 \<and> mw_open w = {0, 1, 2, 3, 4}"
  by (simp add: readme_responder_def responder_start_def make_responder_def Let_def)
    (simp add: readme_options_def default_responder_options_def advertisement_for_def kAdvertisementPrefix_def
      kMaximumAdvertisementBytes_def dec_string.simps make_udp_socket_def make_probe_socket_def mem_api_def
      mem_start_def mem_fresh_def kInvalidSocket_def ipv4_endpoint_def set_nonblocking_def Let_def insert_commute)

theorem responder_advertisement_parses_witness:
  "\<exists>r w. responder_start mem_api (make_responder readme_options, mem_start) = (Inr (), (r, w)) \<and>
     map_option (pe_probe_port \<circ> dp_endpoint) (parse_peer_advertisement (ri_advertisement r) ''10.0.0.1'') = Some 47798"
proof -
  from readme_responder_run obtain r w where
    s: "responder_start mem_api (make_responder readme_options, mem_start) = (Inr (), (r, w))"
    "ri_selected_probe_port r = 47798" by (auto simp: readme_responder_def)
  have "parse_ipv4 ''10.0.0.1'' \<noteq> None" by (simp add: parse_ipv4_examples)
  from responder_advertisement_parses [OF s(1) _ this] s show ?thesis by (simp add: make_responder_def)
qed

section \<open>Safety of the responder\<close>

text \<open>
  C31. A running responder's resources. In every state that calls and thread iterations can reach,
  in any interleaving and whatever the network does, the responder serves at most sixteen
  probe clients, its sockets are distinct, and the open descriptors are those that were
  open at its creation and its own, so that none is leaked or closed twice; stopping it
  closes all of its own and no other, ends both threads and lets it be started again.
\<close>

theorem responder_owns_its_descriptors:
  assumes "descriptors api open_fds" and "reachable_responder api options w0 (r, w)"
    and "ri_terminated r = None"
  shows "(\<forall>socket clients. ri_probe_thread r = Some (socket, clients) \<longrightarrow> length clients \<le> 16) \<and>
    distinct (owned r) \<and> set (owned r) \<inter> open_fds w0 = {} \<and> open_fds w = open_fds w0 \<union> set (owned r) \<and>
    (\<exists>r' w'. responder_stop api (r, w) = (r', w') \<and> open_fds w' = open_fds w0 \<and> owned r' = [] \<and> \<not> ri_running r')"
proof -
  from descriptors.reachable_responder_inv [OF assms(1,2)] assms(3)
  have i: "descriptors.owns open_fds (open_fds w0) (owned r) w"
    "\<forall>socket clients. ri_probe_thread r = Some (socket, clients) \<longrightarrow> length clients \<le> 16"
    by (simp_all add: descriptors.responder_inv_def [OF assms(1)])
  have "owned (fst (responder_stop api (r, w))) = []" "\<not> ri_running (fst (responder_stop api (r, w)))"
    by (subst descriptors.responder_stop_eq [OF assms(1)], simp add: owned_def)+
  with descriptors.responder_stop_fds [OF assms(1) i(1)] i show ?thesis
    by (cases "responder_stop api (r, w)")
      (auto simp: descriptors.owns_def [OF assms(1)] descriptors.opened_def [OF assms(1)])
qed

lemma two_probe_clients:
  assumes "mw_next w = 5" "mw_open w = {0, 1, 2, 3, 4}"
  shows "\<exists>clients w'. probe_iteration mem_api 4 2 [] w = (Inr (clients, False), w') \<and> map ap_socket clients = [5, 6]"
  using assms
  by (simp add: probe_iteration_def mem_api_def mem_fresh_def kInvalidSocket_def numeral_2_eq_2
      kMaximumConcurrentProbeClients_def set_nonblocking_def expired_def finished_def)

text \<open>The README's responder after it accepted two probe clients.\<close>

theorem responder_owns_its_descriptors_witness:
  "\<exists>r w r' w'. reachable_responder mem_api readme_options mem_start (r, w) \<and> owned r = [3, 4, 5, 6] \<and>
     responder_stop mem_api (r, w) = (r', w') \<and> mw_open w' = {0, 1, 2} \<and> owned r' = []"
proof -
  obtain r1 w1 where s: "responder_start mem_api (make_responder readme_options, mem_start) = (Inr (), (r1, w1))"
    "ri_running r1" "ri_terminated r1 = None" "ri_discovery_thread r1 = Some 3" "ri_probe_thread r1 = Some (4, [])"
    "mw_next w1 = 5" "mw_open w1 = {0, 1, 2, 3, 4}"
    using readme_responder_run by (auto simp: readme_responder_def)
  obtain clients w2 where p: "probe_iteration mem_api 4 2 [] w1 = (Inr (clients, False), w2)" "map ap_socket clients = [5, 6]"
    using two_probe_clients [OF s(6,7)] by (elim exE conjE) (rule that)
  let ?r = "r1\<lparr>ri_probe_thread := Some (4, clients), ri_running := False\<rparr>"
  have reach: "reachable_responder mem_api readme_options mem_start (?r, w2)"
    by (rule reachable_responder.step [OF reachable_responder.step [OF reachable_responder.new
            responder_step.start [OF _ _ s(1)]] responder_step.probes [OF s(3,2,5) p(1)]])
      (simp_all add: make_responder_def)
  have "owned ?r = [3, 4, 5, 6]" using s p by (simp add: owned_def)
  moreover have "ri_terminated ?r = None" using s by simp
  moreover have "mw_open mem_start = {0, 1, 2}" by (simp add: mem_start_def)
  ultimately show ?thesis
    using responder_owns_its_descriptors [OF mem.descriptors_axioms reach] reach by metis
qed

end
