(* ===== verification/File_Tool.thy ===== *)
theory File_Tool
  imports Parallel_Receive Receive_Safety Discovery_Responder
begin

text \<open>
  The file-transfer program as a whole (\<^verbatim>\<open>examples/file_transfer.cpp\<close>): \<^verbatim>\<open>run_receive\<close> with the
  discovery responder it may start, \<^verbatim>\<open>main\<close>, and a sender and a receiver that talk to each other.
\<close>

section \<open>run\_receive and main\<close>

definition responder_options :: "Options \<Rightarrow> PeerDiscoveryResponderOptions" where
  "responder_options options = default_responder_options\<lparr>ro_bind_host := o_host options,
     ro_transfer_port := o_port options, ro_discovery_port := o_discovery_port options,
     ro_parallel_streams := o_parallel options\<rparr>"

definition start_responder :: "'w socket_api \<Rightarrow> Options \<Rightarrow> 'w \<Rightarrow> unit result" where
  "start_responder api options w =
     (if o_advertise options then fst (responder_start api (make_responder (responder_options options), w)) else Inr ())"

text \<open>
  The ways in which \<^verbatim>\<open>run_receive\<close> can end, with its result and the file system it leaves:
  a parallel receive ends in as many ways as its threads interleave. The result is the
  number of bytes received, which the code prints before it returns 0. The threads of a
  responder share nothing with the receiver but the process: they work on their own
  sockets, and their behaviour is the subject of the theory of the responder, so that here
  only the outcome of starting it matters.
\<close>

inductive run_receive ::
  "'t transport_ops \<Rightarrow> 'f file_api \<Rightarrow> 'p pipe_api \<Rightarrow> 'w socket_api \<Rightarrow> (TcpEndpoint \<Rightarrow> 't) \<Rightarrow> Options \<Rightarrow>
   'w \<Rightarrow> 'f \<Rightarrow> 'p \<Rightarrow> u64 result \<Rightarrow> 'f \<Rightarrow> bool"
  for ops fs pipes api connection options w f p where
  no_directory: "fs_create_directories fs (o_output_dir options) f = (Some message, f1) \<Longrightarrow>
    run_receive ops fs pipes api connection options w f p (Inl (Filesystem_error message)) f1"
| no_responder: "fs_create_directories fs (o_output_dir options) f = (None, f1) \<Longrightarrow>
    start_responder api options w = Inl e \<Longrightarrow>
    run_receive ops fs pipes api connection options w f p (Inl e) f1"
| parallel: "fs_create_directories fs (o_output_dir options) f = (None, f1) \<Longrightarrow>
    start_responder api options w = Inr () \<Longrightarrow> 1 < o_parallel options \<Longrightarrow>
    (receive_step ops fs options)\<^sup>*\<^sup>* (start_receivers connection options f1) (rs, shared, f2) \<Longrightarrow> all_finished rs \<Longrightarrow>
    run_receive ops fs pipes api connection options w f p (join_receivers rs) f2"
| single: "fs_create_directories fs (o_output_dir options) f = (None, f1) \<Longrightarrow>
    start_responder api options w = Inr () \<Longrightarrow> \<not> 1 < o_parallel options \<Longrightarrow>
    receive_single ops fs pipes options (connection (endpoint_for_stream options 0)) f1 p = Some (r, s, f2, p2) \<Longrightarrow>
    run_receive ops fs pipes api connection options w f p r f2"

text \<open>The exit status, with the two runs as arguments.\<close>

definition main :: "(Options \<Rightarrow> u64 result) \<Rightarrow> (Options \<Rightarrow> u64 result) \<Rightarrow> string list \<Rightarrow> int" where
  "main send receive argv =
     (case parse_args argv of
        Inl e \<Rightarrow> 1
      | Inr None \<Rightarrow> 0
      | Inr (Some options) \<Rightarrow>
          (case (if o_send options then send options else receive options) of Inl e \<Rightarrow> 1 | Inr _ \<Rightarrow> 0))"

section \<open>From a file to a file\<close>

lemma safe_file_name_again: "safe_file_name name = Inr file \<Longrightarrow> safe_file_name file = Inr file"
  by (auto simp: safe_file_name_def Let_def split: if_splits)

text \<open>A receiver whose connections deliver the messages of a file, with any number of streams.\<close>

locale receiving_end = file_reception ops invar sent pending good fs files usable
  for ops :: "'t transport_ops" and invar sent pending good
    and fs :: "'f file_api" and files usable +
  fixes options :: Options and connection :: "TcpEndpoint \<Rightarrow> 't" and session_at :: "nat \<Rightarrow> 't session"
    and name :: string and data :: "byte list" and f0 f1 :: 'f
  assumes some: "o_parallel options \<noteq> 0"
    and name_ok: "safe_file_name name = Inr name" and name_short: "length name \<le> 4096"
    and data_short: "length data < 2 ^ 63"
    and connects: "i < unat (o_parallel options) \<Longrightarrow>
      connect_session ops ''hyperlink-file'' (new_session (connection (endpoint_for_stream options (of_nat i)))) =
        (Inr (), session_at i)"
    and arrives: "i < unat (o_parallel options) \<Longrightarrow>
      \<exists>t. up (session_at i) t \<and> good t \<and> pending t = file_message name data (o_parallel options) (of_nat i)"
    and directory: "fs_create_directories fs (o_output_dir options) f0 = (None, f1)"
    and writable: "usable f1 (join_path (o_output_dir options) name)"
begin

lemma parallel_streams:
  assumes "1 < o_parallel options"
  shows "parallel_reception ops invar sent pending good fs files usable options connection session_at name data"
  by unfold_locales (fact assms name_ok name_short data_short | rule connects arrives, assumption)+

lemma parallel_outcome:
  assumes "1 < o_parallel options"
    and "(receive_step ops fs options)\<^sup>*\<^sup>* (start_receivers connection options f1) (rs, shared, f2)" and "all_finished rs"
  shows "join_receivers rs = Inr (of_nat (length data))" "files f2 (join_path (o_output_dir options) name) = Some data"
proof -
  note P = parallel_streams [OF assms(1)]
  note i = parallel_reception.inv_reachable [OF P assms(2) parallel_reception.inv_start [OF P writable]]
  show "join_receivers rs = Inr (of_nat (length data))" "files f2 (join_path (o_output_dir options) name) = Some data"
    using parallel_reception.finished_outcome [OF P i assms(3)] by simp_all
qed

lemma single_outcome:
  assumes "\<not> 1 < o_parallel options"
  shows "\<exists>s f2. receive_single ops fs pipes options (connection (endpoint_for_stream options 0)) f1 p =
      Some (Inr (of_nat (length data)), s, f2, p) \<and> files f2 (join_path (o_output_dir options) name) = Some data"
proof -
  have "unat (o_parallel options) = 1" using assms some by (simp add: word_less_nat_alt unat_eq_0 [symmetric])
  then have one: "o_parallel options = 1" by (metis unat_1 word_unat_eq_iff)
  from arrives [of 0] connects [of 0] one obtain t where
    "connect_session ops ''hyperlink-file'' (new_session (connection (endpoint_for_stream options 0))) = (Inr (), session_at 0)"
    "s_connected (session_at 0)" "s_transport (session_at 0) = Some t" "good t" "pending t = file_message name data 1 0"
    by (auto simp: up_def)
  from receive_single_file [OF this name_ok name_short _ writable, of pipes p] data_short show ?thesis by auto
qed

lemma run_receive_saves:
  assumes "start_responder api options w = Inr ()"
  shows "\<exists>r f2. run_receive ops fs pipes api connection options w f0 p r f2"
    and "run_receive ops fs pipes api connection options w f0 p r f2 \<Longrightarrow>
      r = Inr (of_nat (length data)) \<and> files f2 (join_path (o_output_dir options) name) = Some data"
proof -
  show "\<exists>r f2. run_receive ops fs pipes api connection options w f0 p r f2"
  proof (cases "1 < o_parallel options")
    case True
    note P = parallel_streams [OF True]
    from parallel_reception.completes [OF P parallel_reception.inv_start [OF P writable]] obtain rs shared f2 where
      "(receive_step ops fs options)\<^sup>*\<^sup>* (start_receivers connection options f1) (rs, shared, f2)" "all_finished rs" by blast
    then show ?thesis by (intro exI) (rule run_receive.parallel [OF directory assms True])
  next
    case False
    from single_outcome [OF False, of pipes p] obtain s f2 where
      "receive_single ops fs pipes options (connection (endpoint_for_stream options 0)) f1 p = Some (Inr (of_nat (length data)), s, f2, p)"
      by blast
    then show ?thesis by (intro exI) (rule run_receive.single [OF directory assms False])
  qed
  assume "run_receive ops fs pipes api connection options w f0 p r f2"
  then show "r = Inr (of_nat (length data)) \<and> files f2 (join_path (o_output_dir options) name) = Some data"
  proof cases
    case (parallel f1' rs shared)
    with directory parallel_outcome show ?thesis by simp
  next
    case (single f1' s p2)
    with directory single_outcome [OF single(3), of pipes p] show ?thesis by auto
  qed (use directory assms in auto)
qed

end

text \<open>
  C1. A file gets across. A sender and a receiver run with the same number of streams, all connections
  come up and stay up, the file has less than $2^{63}$ bytes and a name of at most 4096 that
  passes the check, and the receiver can write its output file. Then \<^verbatim>\<open>run_send\<close> returns
  the size of the file, having sent on each stream the message of its range; and if the network delivers to each stream of the receiver what
  the sender's session of that stream sent, \<^verbatim>\<open>run_receive\<close> can end, and however it ends it returns the same
  size and the output file holds exactly the bytes of the file that was sent.
\<close>

theorem transfer_delivers_file:
  assumes "file_transfer ops invar sent pending good fs files"
    and "\<not> o_auto_discover options" and "o_parallel options \<noteq> 0"
    and "fs_exists fs (o_file options) f" and "\<not> fs_is_directory fs (o_file options) f"
    and "fs_is_regular_file fs (o_file options) f" and "fs_readable fs (o_file options) f"
    and "files f (o_file options) = Some content" and "length content < 2 ^ 63"
    and "fs_file_size fs (o_file options) f = Inr (of_nat (length content))"
    and "safe_file_name (if o_remote_name options = [] then filename (o_file options) else o_remote_name options) = Inr name"
    and "length name \<le> 4096"
    and "\<And>stream. stream < o_parallel options \<Longrightarrow>
      connect_session ops ''hyperlink-file'' (new_session (connection (endpoint_for_stream options stream))) =
        (Inr (), session_at stream) \<and>
      s_connected (session_at stream) \<and> s_transport (session_at stream) = Some (link stream) \<and>
      good (link stream) \<and> sent (link stream) = []"
    and "file_reception ops' invar' sent' pending' good' fs' files' usable"
    and "o_parallel options' = o_parallel options"
    and "\<And>i. i < unat (o_parallel options) \<Longrightarrow>
      connect_session ops' ''hyperlink-file'' (new_session (connection' (endpoint_for_stream options' (of_nat i)))) =
        (Inr (), session_at' i) \<and>
      s_connected (session_at' i) \<and> s_transport (session_at' i) = Some (link' i) \<and> good' (link' i)"
    and "fs_create_directories fs' (o_output_dir options') g0 = (None, g1)"
    and "usable g1 (join_path (o_output_dir options') name)"
    and "start_responder api options' w = Inr ()"
  shows "\<exists>sessions. run_send ops fs popen select connection options f =
      (Inr (of_nat (length content)), map (session_close ops) sessions) \<and>
    (\<forall>i < unat (o_parallel options). \<exists>t. s_transport (sessions ! i) = Some t \<and>
       sent t = file_message name content (o_parallel options) (of_nat i)) \<and>
    ((\<forall>i < unat (o_parallel options). \<exists>t. s_transport (sessions ! i) = Some t \<and> pending' (link' i) = sent t) \<longrightarrow>
      (\<exists>r g. run_receive ops' fs' pipes api connection' options' w g0 p r g) \<and>
      (\<forall>r g. run_receive ops' fs' pipes api connection' options' w g0 p r g \<longrightarrow>
         r = Inr (of_nat (length content)) \<and> files' g (join_path (o_output_dir options') name) = Some content))"
proof -
  from file_transfer.run_send_file [where connection = connection and session_at = session_at and link = link
      and popen = popen and select = select, OF assms(1) assms(2-11) assms(13)] obtain sessions where
    S: "run_send ops fs popen select connection options f = (Inr (of_nat (length content)), map (session_close ops) sessions)"
      "\<forall>i < unat (o_parallel options). \<exists>t. s_transport (sessions ! i) = Some t \<and>
         sent t = file_message name content (o_parallel options) (of_nat i)" by blast
  have "(\<exists>r g. run_receive ops' fs' pipes api connection' options' w g0 p r g) \<and>
      (\<forall>r g. run_receive ops' fs' pipes api connection' options' w g0 p r g \<longrightarrow>
         r = Inr (of_nat (length content)) \<and> files' g (join_path (o_output_dir options') name) = Some content)"
    if "\<forall>i < unat (o_parallel options). \<exists>t. s_transport (sessions ! i) = Some t \<and> pending' (link' i) = sent t"
  proof -
    have "pending' (link' i) = file_message name content (o_parallel options) (of_nat i)" if "i < unat (o_parallel options)" for i
      using that S(2) \<open>\<forall>i < unat (o_parallel options). \<exists>t. s_transport (sessions ! i) = Some t \<and> pending' (link' i) = sent t\<close>
      by force
    with assms(16) have arrive: "\<exists>t. up (session_at' i) t \<and> good' t \<and> pending' t = file_message name content (o_parallel options') (of_nat i)"
      if "i < unat (o_parallel options')" for i using that assms(15) by (auto simp: up_def)
    have "receiving_end ops' invar' sent' pending' good' fs' files' usable options' connection' session_at' name content g0 g1"
      by (rule receiving_end.intro [OF assms(14)], unfold_locales)
        (use assms(3,9,12,15,16,17,18) safe_file_name_again [OF assms(11)] arrive in auto)
    from receiving_end.run_receive_saves [where pipes = pipes and p = p, OF this assms(19)] show ?thesis by blast
  qed
  with S show ?thesis by blast
qed

section \<open>The in-memory instance\<close>

interpretation mem_end: receiving_end "tcp_ops mem_api" "tcp_inv mw_open" mem.tcp_sent mem.tcp_pending
  mem.tcp_good mem_fs "\<lambda>f. f" "\<lambda>_ _. True" two_receivers seven_bytes_server seven_bytes_session "''b.bin''" seven_bytes
  Map.empty Map.empty
proof (rule receiving_end.intro [OF mem_reception.file_reception_axioms], unfold_locales)
  show "o_parallel two_receivers \<noteq> 0" using mem_parallel.many by auto
  show "fs_create_directories mem_fs (o_output_dir two_receivers) Map.empty = (None, Map.empty)" by (simp add: mem_fs_def)
qed (fact mem_parallel.name_ok mem_parallel.name_short mem_parallel.data_short |
     rule mem_parallel.connects mem_parallel.arrives TrueI, (assumption)?)+

theorem transfer_delivers_file_witness:
  "\<exists>sessions g. run_send (tcp_ops mem_api) mem_fs (\<lambda>_. None) (\<lambda>_. Inl no_peer) mem_client two_streams
      [''a/b.bin'' \<mapsto> seven_bytes] = (Inr 7, map (session_close (tcp_ops mem_api)) sessions) \<and>
    run_receive (tcp_ops mem_api) mem_fs mem_pipe mem_api seven_bytes_server two_receivers mem_start Map.empty [] (Inr 7) g \<and>
    g ''in/b.bin'' = Some [1, 2, 3, 4, 5, 6, 7]"
proof -
  let ?o = two_streams and ?f = "[''a/b.bin'' \<mapsto> seven_bytes]"
  have o: "o_parallel ?o = 2" "o_file ?o = ''a/b.bin''" "o_remote_name ?o = []" "\<not> o_auto_discover ?o"
    by (simp_all add: two_streams_def default_transfer_options_def)
  have o': "o_parallel two_receivers = o_parallel ?o" "join_path (o_output_dir two_receivers) ''b.bin'' = ''in/b.bin''"
    by (simp_all add: o two_receivers_def join_path_def is_absolute_def starts_with_def)
  have name: "safe_file_name (if o_remote_name ?o = [] then filename (o_file ?o) else o_remote_name ?o) = Inr ''b.bin''"
    by (simp add: o safe_file_name_def filename_def)
  have st: "o_parallel ?o \<noteq> 0" "fs_exists mem_fs (o_file ?o) ?f" "\<not> fs_is_directory mem_fs (o_file ?o) ?f"
    "fs_is_regular_file mem_fs (o_file ?o) ?f" "fs_readable mem_fs (o_file ?o) ?f"
    "?f (o_file ?o) = Some seven_bytes" "length seven_bytes < 2 ^ 63"
    "fs_file_size mem_fs (o_file ?o) ?f = Inr (of_nat (length seven_bytes))"
    by (simp_all add: o mem_fs_def seven_bytes_def)
  let ?link = "\<lambda>stream. connected_client (endpoint_for_stream ?o stream)"
  let ?link' = "\<lambda>i. accepted_client (file_message ''b.bin'' seven_bytes 2 (of_nat i)) (endpoint_for_stream two_receivers (of_nat i))"
  have links: "connect_session (tcp_ops mem_api) ''hyperlink-file'' (new_session (mem_client (endpoint_for_stream ?o stream))) =
        (Inr (), \<lparr>s_transport = Some (?link stream), s_connected = True\<rparr>) \<and>
      s_connected \<lparr>s_transport = Some (?link stream), s_connected = True\<rparr> \<and>
      s_transport \<lparr>s_transport = Some (?link stream), s_connected = True\<rparr> = Some (?link stream) \<and>
      mem.tcp_good (?link stream) \<and> mem.tcp_sent (?link stream) = []" for stream
    by (simp add: mem_client_connects connected_client_good)
  have links': "connect_session (tcp_ops mem_api) ''hyperlink-file''
        (new_session (seven_bytes_server (endpoint_for_stream two_receivers (of_nat i)))) = (Inr (), seven_bytes_session i) \<and>
      s_connected (seven_bytes_session i) \<and> s_transport (seven_bytes_session i) = Some (?link' i) \<and> mem.tcp_good (?link' i)"
    if "i < unat (o_parallel ?o)" for i
    using seven_bytes_arrive [of i] that by (simp add: o' seven_bytes_session_def accepted_client_good)
  have short: "length ''b.bin'' \<le> 4096" and dir: "fs_create_directories mem_fs (o_output_dir two_receivers) Map.empty = (None, Map.empty)"
    and quiet: "start_responder mem_api two_receivers mem_start = Inr ()"
    by (simp_all add: mem_fs_def start_responder_def two_receivers_def default_transfer_options_def)
  let ?run = "run_receive (tcp_ops mem_api) mem_fs mem_pipe mem_api seven_bytes_server two_receivers mem_start Map.empty []"
  from transfer_delivers_file [where connection = mem_client and link = ?link and link' = ?link'
      and session_at = "\<lambda>stream. \<lparr>s_transport = Some (?link stream), s_connected = True\<rparr>"
      and popen = "\<lambda>_. None" and select = "\<lambda>_. Inl no_peer" and pipes = mem_pipe and p = "[]",
      OF mem_transfer.file_transfer_axioms o(4) st name short links mem_reception.file_reception_axioms o'(1) links' dir TrueI quiet]
  have "\<exists>sessions. run_send (tcp_ops mem_api) mem_fs (\<lambda>_. None) (\<lambda>_. Inl no_peer) mem_client ?o ?f =
      (Inr (of_nat (length seven_bytes)), map (session_close (tcp_ops mem_api)) sessions) \<and>
    (\<forall>i < unat (o_parallel ?o). \<exists>t. s_transport (sessions ! i) = Some t \<and>
       mem.tcp_sent t = file_message ''b.bin'' seven_bytes (o_parallel ?o) (of_nat i)) \<and>
    ((\<forall>i < unat (o_parallel ?o). \<exists>t. s_transport (sessions ! i) = Some t \<and> mem.tcp_pending (?link' i) = mem.tcp_sent t) \<longrightarrow>
      (\<exists>r g. ?run r g) \<and> (\<forall>r g. ?run r g \<longrightarrow>
         r = Inr (of_nat (length seven_bytes)) \<and> g (join_path (o_output_dir two_receivers) ''b.bin'') = Some seven_bytes))" .
  then obtain sessions where S: "run_send (tcp_ops mem_api) mem_fs (\<lambda>_. None) (\<lambda>_. Inl no_peer) mem_client ?o ?f =
      (Inr (of_nat (length seven_bytes)), map (session_close (tcp_ops mem_api)) sessions)"
    "\<forall>i < unat (o_parallel ?o). \<exists>t. s_transport (sessions ! i) = Some t \<and>
       mem.tcp_sent t = file_message ''b.bin'' seven_bytes (o_parallel ?o) (of_nat i)"
    "(\<forall>i < unat (o_parallel ?o). \<exists>t. s_transport (sessions ! i) = Some t \<and> mem.tcp_pending (?link' i) = mem.tcp_sent t) \<longrightarrow>
      (\<exists>r g. ?run r g) \<and> (\<forall>r g. ?run r g \<longrightarrow>
         r = Inr (of_nat (length seven_bytes)) \<and> g (join_path (o_output_dir two_receivers) ''b.bin'') = Some seven_bytes)"
    by (elim exE conjE) (rule that)
  have "\<exists>t. s_transport (sessions ! i) = Some t \<and> mem.tcp_pending (?link' i) = mem.tcp_sent t" if "i < unat (o_parallel ?o)" for i
    using S(2) that unfolding accepted_client_good(2) o by metis
  with S(3) obtain r g where "?run r g" "r = Inr (of_nat (length seven_bytes))"
    "g (join_path (o_output_dir two_receivers) ''b.bin'') = Some seven_bytes" by blast
  moreover have "of_nat (length seven_bytes) = (7 :: u64)" by (simp add: seven_bytes_def)
  ultimately have "?run (Inr 7) g" "g ''in/b.bin'' = Some [1, 2, 3, 4, 5, 6, 7]" unfolding o'(2) by (simp_all add: seven_bytes_def)
  with S(1) \<open>of_nat (length seven_bytes) = 7\<close> show ?thesis by metis
qed

end
