(* ===== verification/Libusb_Transport.thy ===== *)
theory Libusb_Transport
  imports Session_Layer
begin

text \<open>
  The USB back end: \<^verbatim>\<open>src/usb_libusb_transport.cpp\<close>, and the stub of
  \<^verbatim>\<open>src/usb_unavailable_transport.cpp\<close> that is linked when libusb is missing. libusb is a
  parameter, a record of the calls the code makes over a world of its own; what it
  promises about open contexts and device lists is a locale. Discovery lists the devices
  and frees the list; connecting and transferring are not implemented and throw. The
  transport satisfies the session layer's contract; a session over it can never become
  connected, and leaves no list and no context behind.
\<close>

section \<open>libusb\<close>

datatype libusb_speed =
    LIBUSB_SPEED_UNKNOWN | LIBUSB_SPEED_LOW | LIBUSB_SPEED_FULL | LIBUSB_SPEED_HIGH
  | LIBUSB_SPEED_SUPER | LIBUSB_SPEED_SUPER_PLUS | LIBUSB_SPEED_OTHER int

text \<open>
  The calls, over a device type \<open>'d\<close>, a context type \<open>'c\<close> (\<open>None\<close> is the null pointer) and the
  world \<open>'w\<close> they change: initialisation with its result code (0 is \<^verbatim>\<open>LIBUSB_SUCCESS\<close>), the
  end of a context, the device list with its count and its release, and what is read of a
  device: the descriptor (vendor and product id, \<open>None\<close> on failure), speed, bus and address.
\<close>

record ('c, 'd, 'w) libusb_api =
  libusb_init :: "'w \<Rightarrow> (int \<times> 'c option) \<times> 'w"
  libusb_exit :: "'c \<Rightarrow> 'w \<Rightarrow> 'w"
  libusb_get_device_list :: "'c option \<Rightarrow> 'w \<Rightarrow> (int \<times> 'd list) \<times> 'w"
  libusb_free_device_list :: "'d list \<Rightarrow> int \<Rightarrow> 'w \<Rightarrow> 'w"
  libusb_get_device_descriptor :: "'d \<Rightarrow> (u16 \<times> u16) option"
  libusb_get_device_speed :: "'d \<Rightarrow> libusb_speed"
  libusb_get_bus_number :: "'d \<Rightarrow> byte"
  libusb_get_device_address :: "'d \<Rightarrow> byte"

section \<open>The transport\<close>

fun usb_speed_from_libusb :: "libusb_speed \<Rightarrow> UsbSpeed" where
  "usb_speed_from_libusb LIBUSB_SPEED_LOW = LowSpeed"
| "usb_speed_from_libusb LIBUSB_SPEED_FULL = FullSpeed"
| "usb_speed_from_libusb LIBUSB_SPEED_HIGH = HighSpeed"
| "usb_speed_from_libusb LIBUSB_SPEED_SUPER = SuperSpeed"
| "usb_speed_from_libusb LIBUSB_SPEED_SUPER_PLUS = SuperSpeedPlus"
| "usb_speed_from_libusb _ = Unknown"

fun theoretical_bits_per_second :: "UsbSpeed \<Rightarrow> u64" where
  "theoretical_bits_per_second LowSpeed = 1500000"
| "theoretical_bits_per_second FullSpeed = 12000000"
| "theoretical_bits_per_second HighSpeed = 480000000"
| "theoretical_bits_per_second SuperSpeed = 5000000000"
| "theoretical_bits_per_second SuperSpeedPlus = 10000000000"
| "theoretical_bits_per_second Usb4_20Gbps = 20000000000"
| "theoretical_bits_per_second Usb4_40Gbps = 40000000000"
| "theoretical_bits_per_second Usb4_80Gbps = 80000000000"
| "theoretical_bits_per_second Unknown = 0"

definition hex_digit :: "nat \<Rightarrow> char" where
  "hex_digit d = (if d < 10 then digit_char d else char_of (87 + d))"

text \<open>\<^verbatim>\<open>std::hex << std::setfill('0') << std::setw(4)\<close> on a 16-bit value: always four digits.\<close>

definition hex4 :: "u16 \<Rightarrow> string" where
  "hex4 w = map (\<lambda>k. hex_digit (unat w div 16 ^ k mod 16)) [3, 2, 1, 0]"

definition device_peer :: "('c, 'd, 'w) libusb_api \<Rightarrow> 'd \<Rightarrow> PeerInfo option" where
  "device_peer api device =
     (case libusb_get_device_descriptor api device of
        None \<Rightarrow> None
      | Some (idVendor, idProduct) \<Rightarrow>
          let speed = usb_speed_from_libusb (libusb_get_device_speed api device) in
          Some \<lparr>pi_id = ''usb-'' @ dec_string (unat (libusb_get_bus_number api device)) @ ''-'' @
                  dec_string (unat (libusb_get_device_address api device)),
                pi_display_name = ''USB device '' @ hex4 idVendor @ '':'' @ hex4 idProduct,
                pi_vendor_id = idVendor, pi_product_id = idProduct, pi_usb_speed = speed,
                pi_theoretical_bits_per_second = theoretical_bits_per_second speed,
                pi_supports_high_speed = (speed = HighSpeed \<or> speed = SuperSpeed \<or>
                  speed = SuperSpeedPlus \<or> speed = Usb4_20Gbps \<or> speed = Usb4_40Gbps \<or> speed = Usb4_80Gbps),
                pi_supports_super_speed = (speed = SuperSpeed \<or> speed = SuperSpeedPlus \<or>
                  speed = Usb4_20Gbps \<or> speed = Usb4_40Gbps \<or> speed = Usb4_80Gbps)\<rparr>)"

text \<open>
  The object: its context, with the world it acts on. The loop visits the first count
  devices of the list, which is released after it.
\<close>

record ('c, 'w) LibusbTransport =
  lt_context :: "'c option"
  lt_world :: 'w

definition libusb_construct :: "('c, 'd, 'w) libusb_api \<Rightarrow> ('w, 'c option) eff" where
  "libusb_construct api w =
     (case libusb_init api w of ((code, context), w') \<Rightarrow>
      if code \<noteq> 0 then (Inl (Runtime_error ''libusb_init failed''), w') else (Inr context, w'))"

definition libusb_destroy :: "('c, 'd, 'w) libusb_api \<Rightarrow> ('c, 'w) LibusbTransport \<Rightarrow> 'w" where
  "libusb_destroy api t =
     (case lt_context t of None \<Rightarrow> lt_world t | Some context \<Rightarrow> libusb_exit api context (lt_world t))"

definition libusb_discover ::
  "('c, 'd, 'w) libusb_api \<Rightarrow> AutoConfigOptions \<Rightarrow> (('c, 'w) LibusbTransport, PeerInfo list) eff" where
  "libusb_discover api options t =
     (case libusb_get_device_list api (lt_context t) (lt_world t) of ((listed, devices), w) \<Rightarrow>
      if listed < 0 then (Inl (Runtime_error ''libusb_get_device_list failed''), t\<lparr>lt_world := w\<rparr>)
      else let peers = List.map_filter (device_peer api) (take (nat listed) devices)
           in (Inr peers, t\<lparr>lt_world := libusb_free_device_list api devices 1 w\<rparr>))"

definition libusb_ops :: "('c, 'd, 'w) libusb_api \<Rightarrow> ('c, 'w) LibusbTransport transport_ops" where
  "libusb_ops api =
     \<lparr>t_discover = libusb_discover api,
      t_connect = \<lambda>_ _ t. (Inl (Runtime_error ''libusb transport connect is not implemented yet''), t),
      t_send = \<lambda>_ t. (Inl (Runtime_error ''libusb transport send is not implemented yet''), t),
      t_receive = \<lambda>_ t. (Inl (Runtime_error ''libusb transport receive is not implemented yet''), t),
      t_receive_into = \<lambda>_ t. (Inl (Runtime_error ''libusb transport receive is not implemented yet''), t),
      t_close = \<lambda>t. t\<rparr>"

text \<open>The factory: a new object on the heap, or the exception of its constructor.\<close>

definition make_libusb_transport ::
  "('c, 'd, 'w) libusb_api \<Rightarrow> 'w \<Rightarrow> (exn \<times> 'w) + ('c, 'w) LibusbTransport" where
  "make_libusb_transport api w =
     (case libusb_construct api w of
        (Inl e, w') \<Rightarrow> Inl (e, w')
      | (Inr context, w') \<Rightarrow> Inr \<lparr>lt_context = context, lt_world = w'\<rparr>)"

definition make_libusb_transport_unavailable :: "unit result" where
  "make_libusb_transport_unavailable =
     Inl (Runtime_error ''Hyperlink was built without libusb support'')"

section \<open>What libusb promises\<close>

text \<open>
  The documented behaviour the code relies on, over a ledger of the open contexts and of
  the device lists that have not been released: a successful initialisation opens a new
  context, and only leaving it closes it; a list that is handed out has as many devices as
  the count says and stays allocated until it is freed; a failed call allocates nothing.
\<close>

locale libusb_ledger =
  fixes api :: "('c, 'd, 'w) libusb_api"
    and contexts :: "'w \<Rightarrow> 'c set"
    and unfreed :: "'w \<Rightarrow> 'd list multiset"
  assumes init_ok: "libusb_init api w = ((0, context), w') \<Longrightarrow>
      \<exists>c. context = Some c \<and> c \<notin> contexts w \<and> contexts w' = insert c (contexts w) \<and> unfreed w' = unfreed w"
    and init_failed: "libusb_init api w = ((code, context), w') \<Longrightarrow> code \<noteq> 0 \<Longrightarrow>
      contexts w' = contexts w \<and> unfreed w' = unfreed w"
    and exit_ledger: "contexts (libusb_exit api c w) = contexts w - {c} \<and> unfreed (libusb_exit api c w) = unfreed w"
    and list_ledger: "libusb_get_device_list api context w = ((n, ds), w') \<Longrightarrow>
      contexts w' = contexts w \<and>
      (if n < 0 then unfreed w' = unfreed w else unfreed w' = add_mset ds (unfreed w) \<and> n = int (length ds))"
    and free_ledger: "contexts (libusb_free_device_list api ds k w) = contexts w \<and>
      unfreed (libusb_free_device_list api ds k w) = unfreed w - {#ds#}"
begin

text \<open>The resources a transport holds are the same after every call.\<close>

definition holds :: "'c option \<Rightarrow> 'c set \<Rightarrow> 'd list multiset \<Rightarrow> ('c, 'w) LibusbTransport \<Rightarrow> bool" where
  "holds context cs ls t \<longleftrightarrow>
     lt_context t = context \<and> contexts (lt_world t) = cs \<and> unfreed (lt_world t) = ls"

lemma discover_holds: "holds c cs ls t \<Longrightarrow> holds c cs ls (snd (libusb_discover api options t))"
  by (auto simp: libusb_discover_def holds_def Let_def free_ledger dest!: list_ledger split: prod.splits if_splits)

lemma contract: "transport_contract (libusb_ops api) (holds c cs ls)"
  by unfold_locales (auto simp: libusb_ops_def discover_holds)

lemma made_holds:
  assumes "make_libusb_transport api w = Inr t"
  obtains c where "c \<notin> contexts w" "holds (Some c) (insert c (contexts w)) (unfreed w) t"
proof -
  from assms obtain ctx w' where i: "libusb_init api w = ((0, ctx), w')"
    and t: "t = \<lparr>lt_context = ctx, lt_world = w'\<rparr>"
    by (auto simp: make_libusb_transport_def libusb_construct_def split: prod.splits sum.splits if_splits)
  from init_ok [OF i] t that show thesis by (auto simp: holds_def)
qed

lemma destroyed:
  assumes "holds (Some c) (insert c cs) ls t" and "c \<notin> cs"
  shows "contexts (libusb_destroy api t) = cs \<and> unfreed (libusb_destroy api t) = ls"
  using assms exit_ledger by (auto simp: holds_def libusb_destroy_def)

lemma failed_construction:
  "make_libusb_transport api w = Inl (e, w') \<Longrightarrow> contexts w' = contexts w \<and> unfreed w' = unfreed w"
  by (auto simp: make_libusb_transport_def libusb_construct_def dest: init_failed
      split: prod.splits sum.splits if_splits)

end

section \<open>An in-memory libusb\<close>

text \<open>
  A world with a fixed row of devices, the open contexts (numbered) and the lists handed
  out. It shows that the promises can be kept and carries the examples.
\<close>

record bus =
  bus_devices :: "nat list"
  bus_contexts :: "nat list"
  bus_lists :: "nat list multiset"

definition mem_libusb :: "(nat, nat, bus) libusb_api" where
  "mem_libusb =
     \<lparr>libusb_init = \<lambda>w. let c = Suc (sum_list (bus_contexts w)) in
        ((0, Some c), w\<lparr>bus_contexts := c # bus_contexts w\<rparr>),
      libusb_exit = \<lambda>c w. w\<lparr>bus_contexts := removeAll c (bus_contexts w)\<rparr>,
      libusb_get_device_list = \<lambda>context w.
        (case context of None \<Rightarrow> ((- 2, []), w)
         | Some c \<Rightarrow> ((int (length (bus_devices w)), bus_devices w),
                     w\<lparr>bus_lists := add_mset (bus_devices w) (bus_lists w)\<rparr>)),
      libusb_free_device_list = \<lambda>ds _ w. w\<lparr>bus_lists := bus_lists w - {#ds#}\<rparr>,
      libusb_get_device_descriptor = \<lambda>d. if d = 0 then None else Some (7504, of_nat d),
      libusb_get_device_speed = \<lambda>d. if d < 10 then LIBUSB_SPEED_HIGH else LIBUSB_SPEED_SUPER,
      libusb_get_bus_number = \<lambda>_. 2, libusb_get_device_address = \<lambda>d. of_nat d\<rparr>"

interpretation mem_usb: libusb_ledger mem_libusb "\<lambda>w. set (bus_contexts w)" bus_lists
proof
  have "Suc (sum_list xs) \<notin> set xs" for xs :: "nat list"
    using member_le_sum_list [of "Suc (sum_list xs)" xs] by auto
  then show "libusb_init mem_libusb w = ((0, ctx), w') \<Longrightarrow>
      \<exists>c. ctx = Some c \<and> c \<notin> set (bus_contexts w) \<and>
          set (bus_contexts w') = insert c (set (bus_contexts w)) \<and> bus_lists w' = bus_lists w" for w ctx w'
    by (auto simp: mem_libusb_def Let_def)
qed (auto simp: mem_libusb_def Let_def split: option.splits)

section \<open>Contract and properties\<close>

interpretation libusb: transport_contract "libusb_ops api" "\<lambda>_. True" for api :: "('c, 'd, 'w) libusb_api"
  by unfold_locales (auto simp: libusb_ops_def)

text \<open>
  Specification side: the value that four hexadecimal digits denote, the public attributes
  of a libusb speed class, and what a reported peer says of its device.
\<close>

definition hex_value :: "string \<Rightarrow> nat" where
  "hex_value s = foldl (\<lambda>v c. 16 * v + (if of_char c < (58 :: nat) then of_char c - 48 else of_char c - 87)) 0 s"

fun speed_class :: "libusb_speed \<Rightarrow> UsbSpeed \<times> u64 \<times> bool \<times> bool" where
  "speed_class LIBUSB_SPEED_LOW = (LowSpeed, 1500000, False, False)"
| "speed_class LIBUSB_SPEED_FULL = (FullSpeed, 12000000, False, False)"
| "speed_class LIBUSB_SPEED_HIGH = (HighSpeed, 480000000, True, False)"
| "speed_class LIBUSB_SPEED_SUPER = (SuperSpeed, 5000000000, True, True)"
| "speed_class LIBUSB_SPEED_SUPER_PLUS = (SuperSpeedPlus, 10000000000, True, True)"
| "speed_class _ = (Unknown, 0, False, False)"

definition describes :: "('c, 'd, 'w) libusb_api \<Rightarrow> 'd \<Rightarrow> PeerInfo \<Rightarrow> bool" where
  "describes api d p \<longleftrightarrow>
     libusb_get_device_descriptor api d = Some (pi_vendor_id p, pi_product_id p) \<and>
     pi_id p = ''usb-'' @ dec_string (unat (libusb_get_bus_number api d)) @ ''-'' @
       dec_string (unat (libusb_get_device_address api d)) \<and>
     (\<exists>vendor product. pi_display_name p = ''USB device '' @ vendor @ '':'' @ product \<and>
        length vendor = 4 \<and> hex_value vendor = unat (pi_vendor_id p) \<and>
        length product = 4 \<and> hex_value product = unat (pi_product_id p)) \<and>
     (pi_usb_speed p, pi_theoretical_bits_per_second p, pi_supports_high_speed p, pi_supports_super_speed p) =
       speed_class (libusb_get_device_speed api d)"

lemma hex_digit_value:
  "d < 16 \<Longrightarrow> (if of_char (hex_digit d) < (58 :: nat) then of_char (hex_digit d) - 48 else of_char (hex_digit d) - 87) = d"
  by (simp add: hex_digit_def digit_char_def)

lemma length_hex4 [simp]: "length (hex4 w) = 4"
  by (simp add: hex4_def)

lemma hex_value_hex4 [simp]: "hex_value (hex4 w) = unat w"
proof -
  have d: "unat w div 256 = unat w div 16 div 16" "unat w div 4096 = unat w div 16 div 16 div 16"
    by (simp_all add: div_mult2_eq [symmetric])
  have "unat w < 4096 * 16" using unsigned_less [of w] by simp
  then have lt: "unat w div 4096 < 16" by (simp add: less_mult_imp_div_less)
  then have "16 * (16 * (16 * (unat w div 4096 mod 16) + unat w div 256 mod 16) + unat w div 16 mod 16) + unat w mod 16 = unat w"
    by (simp add: d)
  with lt show ?thesis by (simp add: hex_value_def hex4_def hex_digit_value)
qed

lemma hex_pair:
  "\<exists>vendor product. hex4 a @ CHR '':'' # hex4 b = vendor @ CHR '':'' # product \<and>
     length vendor = 4 \<and> hex_value vendor = unat a \<and> length product = 4 \<and> hex_value product = unat b"
  by (rule exI [of _ "hex4 a"], rule exI [of _ "hex4 b"]) simp

lemma device_peer_describes: "device_peer api d = Some p \<Longrightarrow> describes api d p"
  by (cases "libusb_get_device_speed api d")
    (auto simp: device_peer_def describes_def Let_def hex_pair split: option.splits)

lemma map_filter_describes:
  "list_all2 (describes api) (filter (\<lambda>d. libusb_get_device_descriptor api d \<noteq> None) ds)
     (List.map_filter (device_peer api) ds)"
proof (induction ds)
  case Nil
  then show ?case by (simp add: List.map_filter_def)
next
  case (Cons d ds)
  show ?case
  proof (cases "libusb_get_device_descriptor api d")
    case None
    with Cons show ?thesis by (simp add: List.map_filter_def device_peer_def)
  next
    case (Some vp)
    then obtain p where p: "device_peer api d = Some p" by (cases vp) (auto simp: device_peer_def Let_def)
    with Cons Some device_peer_describes [OF p] show ?thesis by (simp add: List.map_filter_def)
  qed
qed

text \<open>
  C26. USB discovery. When the device list cannot be had, the call throws. Otherwise it returns
  exactly one peer for each device whose descriptor can be read, in the order of the list:
  its id is bus and address in decimal, its name the vendor and product ids in four hex
  digits each, and its speed class, theoretical rate and capability flags follow from the
  libusb speed (so no class above 10 Gbps ever comes from this back end). The list is
  released on every path that got one, and no context is opened or closed.
\<close>

theorem libusb_discover_exact:
  assumes "libusb_ledger api contexts unfreed"
    and "libusb_get_device_list api (lt_context t) (lt_world t) = ((n, devices), w)"
    and "libusb_discover api options t = (r, t')"
  shows "(if n < 0 then r = Inl (Runtime_error ''libusb_get_device_list failed'')
          else \<exists>peers. r = Inr peers \<and>
            list_all2 (describes api) (filter (\<lambda>d. libusb_get_device_descriptor api d \<noteq> None) devices) peers) \<and>
         lt_context t' = lt_context t \<and> contexts (lt_world t') = contexts (lt_world t) \<and>
         unfreed (lt_world t') = unfreed (lt_world t)"
proof -
  have "lt_context t' = lt_context t \<and> contexts (lt_world t') = contexts (lt_world t) \<and>
      unfreed (lt_world t') = unfreed (lt_world t)"
    using libusb_ledger.discover_holds [OF assms(1), of _ _ _ t options] assms(3)
    by (simp add: libusb_ledger.holds_def [OF assms(1)])
  moreover have "0 \<le> n \<Longrightarrow> n = int (length devices)"
    using libusb_ledger.list_ledger [OF assms(1,2)] by simp
  ultimately show ?thesis using assms(2,3) map_filter_describes [of api devices]
    by (auto simp: libusb_discover_def Let_def)
qed

theorem libusb_discover_exact_witness:
  "\<exists>p q t'. libusb_discover mem_libusb default_options
      \<lparr>lt_context = Some 1, lt_world = \<lparr>bus_devices = [7, 0, 13], bus_contexts = [1], bus_lists = {#}\<rparr>\<rparr> =
      (Inr [p, q], t') \<and> bus_lists (lt_world t') = {#} \<and>
    pi_id p = ''usb-2-7'' \<and> pi_usb_speed p = HighSpeed \<and> pi_id q = ''usb-2-13'' \<and> pi_supports_super_speed q"
proof -
  let ?w = "\<lparr>bus_devices = [7, 0, 13], bus_contexts = [1], bus_lists = {#}\<rparr>"
  let ?t = "\<lparr>lt_context = Some 1, lt_world = ?w\<rparr>"
  have l: "libusb_get_device_list mem_libusb (lt_context ?t) (lt_world ?t) =
      ((3, [7, 0, 13]), ?w\<lparr>bus_lists := {#[7, 0, 13]#}\<rparr>)" by (simp add: mem_libusb_def)
  obtain r t' where d: "libusb_discover mem_libusb default_options ?t = (r, t')" by fastforce
  from libusb_discover_exact [OF mem_usb.libusb_ledger_axioms l d] obtain p q where
    "r = Inr [p, q]" "describes mem_libusb 7 p" "describes mem_libusb 13 q" "bus_lists (lt_world t') = {#}"
    by (auto simp: mem_libusb_def list_all2_Cons1)
  moreover have "dec_string 2 = ''2''" "dec_string 7 = ''7''" "dec_string 13 = ''13''" by code_simp+
  ultimately show ?thesis using d by (auto simp: describes_def mem_libusb_def)
qed

section \<open>Sessions over USB\<close>

definition idle :: "('c, 'w) LibusbTransport session \<Rightarrow> bool" where
  "idle s \<longleftrightarrow> s_transport s \<noteq> None \<and> \<not> s_connected s"

lemma connect_throws:
  assumes "idle s"
  shows "session_connect (libusb_ops api) peer l p name s =
     (Inl (case negotiate l p name of Inl e \<Rightarrow> e
           | Inr _ \<Rightarrow> Runtime_error ''libusb transport connect is not implemented yet''), s)"
  using assms by (cases s) (auto simp: idle_def session_connect_def bindE_def libusb_ops_def split: sum.split)

lemma discover_no_null: "fst (libusb_discover api options t) \<noteq> Inl Null_dereference"
  by (auto simp: libusb_discover_def Let_def split: prod.split)

lemma libusb_exec_idle:
  assumes "idle s"
  shows "\<not> fst (session_exec (libusb_ops api) x s) \<and> idle (snd (session_exec (libusb_ops api) x s))"
proof (cases x)
  case (Op_connect peer l p name)
  then show ?thesis using negotiate_no_null [of l p name] connect_throws [OF assms, of api peer l p name] assms
    by (auto simp: outcome_eq split: sum.splits simp del: negotiate_no_null)
qed (use assms in \<open>auto simp: discover_no_null outcome_eq session_op_defs not_connected_def libusb_ops_def
      idle_def split: option.split\<close>)

lemma libusb_run_idle:
  "idle s \<Longrightarrow> \<not> fst (session_run (libusb_ops api) xs s) \<and> idle (snd (session_run (libusb_ops api) xs s))"
proof (induction xs arbitrary: s)
  case Nil
  then show ?case by simp
next
  case (Cons x xs)
  with libusb_exec_idle [OF Cons.prems, of api x] show ?case by (simp add: case_prod_unfold)
qed

text \<open>
  C27. A session over the USB back end never gets connected. After any sequence of calls on a new
  session, none of which dereferences a null transport, it is not connected: the next
  send, receive or receive-into throws \<open>Session is not connected\<close>, the next connect throws
  the negotiation's error or that connecting is not implemented, close does nothing, and a
  data call made on the transport itself throws too. All that is held is the one context:
  no device list is left allocated, and destroying the session and its transport closes
  exactly that context.
\<close>

theorem libusb_session_stays_idle:
  assumes "libusb_ledger api contexts unfreed" and "make_libusb_transport api w = Inr t"
    and "session_new (Some t) = Inr s" and "session_run (libusb_ops api) program s = (null, s')"
  shows "\<not> null \<and> \<not> s_connected s' \<and>
    session_send (libusb_ops api) payload s' = (Inl not_connected, s') \<and>
    session_receive (libusb_ops api) k s' = (Inl not_connected, s') \<and>
    session_receive_into (libusb_ops api) k s' = (Inl not_connected, s') \<and>
    session_connect (libusb_ops api) peer l p name s' =
      (Inl (case negotiate l p name of Inl e \<Rightarrow> e
            | Inr _ \<Rightarrow> Runtime_error ''libusb transport connect is not implemented yet''), s') \<and>
    session_close (libusb_ops api) s' = s' \<and>
    (\<exists>t'. session_destroy (libusb_ops api) s' = Some t' \<and>
       isl (fst (t_send (libusb_ops api) payload t')) \<and> isl (fst (t_receive (libusb_ops api) k t')) \<and>
       isl (fst (t_receive_into (libusb_ops api) k t')) \<and>
       (\<exists>c. lt_context t' = Some c \<and> c \<notin> contexts w \<and> contexts (lt_world t') = insert c (contexts w)) \<and>
       unfreed (lt_world t') = unfreed w \<and>
       contexts (libusb_destroy api t') = contexts w \<and> unfreed (libusb_destroy api t') = unfreed w)"
proof -
  from libusb_ledger.made_holds [OF assms(1,2)] obtain c where c: "c \<notin> contexts w"
    and t: "libusb_ledger.holds contexts unfreed (Some c) (insert c (contexts w)) (unfreed w) t" .
  let ?holds = "libusb_ledger.holds contexts unfreed (Some c) (insert c (contexts w)) (unfreed w)"
  note C = libusb_ledger.contract [OF assms(1), of "Some c" "insert c (contexts w)" "unfreed w"]
  from assms(3) have s: "s = \<lparr>s_transport = Some t, s_connected = False\<rparr>" by (simp add: session_new_def)
  then have "transport_contract.session_invar ?holds s"
    using t by (simp add: transport_contract.session_invar_def [OF C])
  from transport_contract.session_run_invar [OF C this, of program]
  have inv: "transport_contract.session_invar ?holds s'" using assms(4) by simp
  have idle: "\<not> null" "idle s'" using libusb_run_idle [of s api program] s assms(4) by (simp_all add: idle_def)
  then obtain t' where t': "s_transport s' = Some t'" "\<not> s_connected s'" by (auto simp: idle_def)
  with inv have h: "?holds t'" by (simp add: transport_contract.session_invar_def [OF C])
  note d = libusb_ledger.destroyed [OF assms(1) h c]
  show ?thesis
  proof (intro conjI)
    show "\<exists>t'. session_destroy (libusb_ops api) s' = Some t' \<and>
       isl (fst (t_send (libusb_ops api) payload t')) \<and> isl (fst (t_receive (libusb_ops api) k t')) \<and>
       isl (fst (t_receive_into (libusb_ops api) k t')) \<and>
       (\<exists>c. lt_context t' = Some c \<and> c \<notin> contexts w \<and> contexts (lt_world t') = insert c (contexts w)) \<and>
       unfreed (lt_world t') = unfreed w \<and>
       contexts (libusb_destroy api t') = contexts w \<and> unfreed (libusb_destroy api t') = unfreed w"
      using t' h d c by (intro exI [of _ t'])
        (auto simp: session_destroy_def session_close_def libusb_ops_def libusb_ledger.holds_def [OF assms(1)])
  qed (use idle t' connect_throws [OF idle(2)] in \<open>simp_all add: session_op_defs\<close>)
qed

theorem libusb_session_stays_idle_witness:
  "\<exists>s null s' t'. session_new (Some \<lparr>lt_context = Some 1,
      lt_world = \<lparr>bus_devices = [7, 13], bus_contexts = [1], bus_lists = {#}\<rparr>\<rparr>) = Inr s \<and>
    session_run (libusb_ops mem_libusb) [Op_discover default_options,
      Op_connect any_peer default_options default_options ''x'', Op_send [1]] s = (null, s') \<and>
    \<not> null \<and> session_send (libusb_ops mem_libusb) [1] s' = (Inl not_connected, s') \<and>
    session_destroy (libusb_ops mem_libusb) s' = Some t' \<and> bus_lists (lt_world t') = {#} \<and>
    bus_contexts (libusb_destroy mem_libusb t') = []"
proof -
  let ?bus = "\<lparr>bus_devices = [7, 13], bus_contexts = [], bus_lists = {#}\<rparr>"
  let ?t = "\<lparr>lt_context = Some 1, lt_world = \<lparr>bus_devices = [7, 13], bus_contexts = [1], bus_lists = {#}\<rparr>\<rparr>"
  let ?s = "\<lparr>s_transport = Some ?t, s_connected = False\<rparr>"
  let ?program = "[Op_discover default_options, Op_connect any_peer default_options default_options ''x'', Op_send [1]]"
  have m: "make_libusb_transport mem_libusb ?bus = Inr ?t"
    by (simp add: make_libusb_transport_def libusb_construct_def mem_libusb_def)
  have n: "session_new (Some ?t) = Inr ?s" by (simp add: session_new_def)
  obtain null s' where r: "session_run (libusb_ops mem_libusb) ?program ?s = (null, s')" by fastforce
  note idle = libusb_session_stays_idle [OF mem_usb.libusb_ledger_axioms m n r, where payload = "[1]"]
  then obtain t' where "session_destroy (libusb_ops mem_libusb) s' = Some t'" "bus_lists (lt_world t') = {#}"
    "bus_contexts (libusb_destroy mem_libusb t') = []" by fastforce
  with idle n r show ?thesis by blast
qed

end
