(* ===== verification/Spec2Isabelle.thy ===== *)
theory Spec2Isabelle
  imports Cli Directory_Plan File_Tool Libusb_Transport
begin

text \<open>
  Verification of Hyperlink, a C++ library and tools that move data between two machines.

  \<^bold>\<open>The program.\<close> The library (\<^verbatim>\<open>src/src\<close>, headers in \<^verbatim>\<open>src/include/hyperlink\<close>) has a session
  layer over an abstract transport, a TCP transport, a USB transport on libusb, the
  negotiation of link options, and peer discovery: a client that asks for peers by UDP
  broadcast and measures each by a TCP probe, and a responder with two threads that answers.
  The tools (\<^verbatim>\<open>src/examples\<close>) are a file-transfer program that sends a file or directory over
  one or more sessions, a benchmark, and a command-line front end that starts the two through
  the shell. A transfer runs as follows: the front end builds the arguments; the sender finds
  its receiver, plans byte ranges or partitions, and each stream's session sends headers and
  payloads through the TCP transport; the receiver's threads read them and write one file
  system.

  \<^bold>\<open>Theories and sources.\<close>

  \<^item> \<open>Hyperlink_Prelude\<close>: machine integers as words, exceptions as values (\<open>exn\<close>, one constructor
    per C++ exception type, and \<open>Null_dereference\<close> for the undefined behaviour that one
    component has), \<open>eff\<close> for code that threads a state and may throw, the string functions
    of the standard library that the sources use, sorting by a comparison, list lemmas.
  \<^item> \<open>Auto_Config\<close>: \<^verbatim>\<open>auto_config.hpp/.cpp\<close>. \<open>validate\<close>, \<open>negotiate\<close>. Shown: success exactly on valid
    options and what is agreed, the order of the checks with their messages, when two ends agree.
  \<^item> \<open>Session_Layer\<close>: \<^verbatim>\<open>session.hpp/.cpp\<close>. The class \<^verbatim>\<open>Transport\<close> is a record of operations over a
    transport state, a session a record of an optional transport and a flag. The locales
    \<open>transport_contract\<close>, \<open>stream_transport\<close> and \<open>reliable_stream\<close> say what a session relies on.
    Shown: every sequence of calls obeys the link protocol; closing; moves.
  \<^item> \<open>Socket_Api\<close>: the system calls, a record over an arbitrary world, and their documented laws
    as locales (\<open>descriptors\<close>, \<open>stream_sockets\<close>, \<open>healthy_sockets\<close>, \<open>clocked_sockets\<close>), with an
    in-memory instance on which the examples are evaluated.
  \<^item> \<open>Tcp_Transport\<close>: \<^verbatim>\<open>network_transport.hpp/.cpp\<close>. Shown: no descriptor is leaked by any sequence
    of calls, sends deliver everything, buffer sizes do not wrap; the transport satisfies the
    contracts of the session layer.
  \<^item> \<open>Libusb_Transport\<close>: \<^verbatim>\<open>usb_libusb_transport.cpp\<close> and the stub \<^verbatim>\<open>usb_unavailable_transport.cpp\<close>.
    libusb is a record of its calls; the locale \<open>libusb_ledger\<close> accounts for open contexts and
    device lists. Shown: what discovery reports, that the list is freed, that sessions over it
    stay unconnected and give their context back.
  \<^item> \<open>Peer_Discovery\<close>: the pure part of \<^verbatim>\<open>peer_discovery.hpp/.cpp\<close> and the test harness of
    \<^verbatim>\<open>peer_discovery_internal.hpp\<close>: advertisements, de-duplication, ranking, selection. Shown:
    the parsers accept exactly the documented formats, first reply of each key, the winner
    does not depend on the order, when the comparison of the sort is an order.
  \<^item> \<open>Discovery_Client\<close>: targets, replies, probes and \<^verbatim>\<open>PeerDiscovery\<close> of \<^verbatim>\<open>peer_discovery.cpp\<close>.
    Shown: the exact set of targets, that the waiting loops end when time passes, that every
    socket is closed, that a selected peer was advertised by a datagram that was received.
  \<^item> \<open>Discovery_Responder\<close>: \<^verbatim>\<open>PeerDiscoveryResponder::Impl\<close>. Calls and iterations of its two threads
    are steps; an invariant over all reachable states. Shown: descriptor ownership, the bound
    on clients, the advertisement is what the client's parser reads, the choice of ports.
  \<^item> \<open>Path_Safety\<close>, \<open>Wire_Format\<close>, \<open>Transfer_Plan\<close>, \<open>Directory_Plan\<close>, \<open>File_Store\<close>, \<open>File_Sender\<close>,
    \<open>File_Receiver\<close>, \<open>Parallel_Receive\<close>, \<open>Receive_Safety\<close>, \<open>File_Tool\<close>: \<^verbatim>\<open>examples/file_transfer.cpp\<close>.
    In this order: names and shell quoting; the header and its readers; command line, byte
    ranges, partitions; balance of partitions; the file system as a record with laws
    (\<open>file_store\<close>, \<open>working_store\<close>); the sender; the receiver, single and parallel; the parallel
    receiver against the messages of the sender; confinement to the output directory;
    \<^verbatim>\<open>run_receive\<close>, \<^verbatim>\<open>main\<close> and a transfer from end to end.
  \<^item> \<open>Bench\<close>: \<^verbatim>\<open>examples/bench.cpp\<close>. Shown: client and server end and count the same bytes.
  \<^item> \<open>Cli\<close>: \<^verbatim>\<open>examples/cli.cpp\<close>. Shown: what the front end was asked for is what the helper's parser
    reads, through the shell, for all characters.

  \<^bold>\<open>Parameters.\<close> Code outside the repository is an argument of the definitions: the socket calls
  and the clock, libusb, the file system, the pipes to \<^verbatim>\<open>tar\<close>, the environment and the shell's
  execution of a command. Theorems about behaviour that depends on them take the locale with
  the documented laws as a hypothesis, and every such locale is interpreted: the contracts of
  the session layer on the models of the transports, the laws of the environment on in-memory
  instances that split data into small pieces, so that loops iterate.

  \<^bold>\<open>Loops and threads.\<close> No fuel is used. Loops that depend on the network are partial functions in
  the option type, where \<open>None\<close> is not returning; that they return is part of what is proved.
  Threads of the sender work on data of their own and are functions; threads of the parallel
  receiver and of the responder interleave in a step relation. A step of a receiver thread is
  one wait, one critical section entry or one call on the file system or connection, the
  granularity at which another thread can see the shared record and the file.

  \<^bold>\<open>Idealisations and what is not modelled.\<close> The POSIX branch of every conditional is followed; the
  Windows branches are not modelled, nor is the printing of progress and usage, the program
  \<^verbatim>\<open>probe.cpp\<close> that only prints, the export macros, tests and build files. Allocation failure
  (with sizes a peer chooses too), failure to create a thread, signals (\<^verbatim>\<open>SIGPIPE\<close> is a finding),
  descriptors beyond \<^verbatim>\<open>FD_SETSIZE\<close>, and errors that a file stream reports only when it is
  closed are left out. Rates are real numbers, without rounding and NaN. The clock is assumed
  to move between two readings where a theorem says that time passes. Paths are C++ strings
  and are read lexically: a NUL byte cuts them short for the system, and symbolic links are
  not resolved; lemmas and findings say what follows. What \<^verbatim>\<open>tar\<close> writes is behind the pipe. The
  reader of shell words knows blanks, quotes and backslashes and refuses everything else.
\<close>

end
